theory Spec2Isabelle
  imports Main "HOL-Library.AList"
begin

section \<open>The config.xml document and the operations of \<open>Config\<close>\<close>

text \<open>
  The module \<^verbatim>\<open>src/index.js\<close> wraps one XML document (an element tree of the
  \<^verbatim>\<open>elementtree\<close> library) and mutates it in place through the methods of \<open>Config\<close>.
  Mutation is modelled by state passing: every method takes the state and returns the
  new one; a method that can throw returns the thrown value or \<open>()\<close> beside the state, so
  that what was mutated before the throw stays visible.

  JavaScript strings are modelled as \<open>string\<close>; characters beyond code unit 255 are not
  representable.
\<close>

subsection \<open>Thrown values\<close>

text \<open>
  \<open>Error m\<close> is \<^verbatim>\<open>new Error(m)\<close>, the only thing the source throws itself.
  \<open>TypeError\<close> is what the engine throws for a method call on \<^verbatim>\<open>undefined\<close>,
  \<open>SyntaxError\<close> what the tree library throws for a path or a markup text it rejects;
  their messages are not modelled.
\<close>

datatype error = Error string | TypeError | SyntaxError

subsection \<open>Elements\<close>

text \<open>
  Modelled from the spec: the node of its section 3 and the tree contract of its
  section 6 (create a node, append and remove a child, read and write an attribute,
  the ordered children). The tree library that implements them is not part of the
  sources.

  An element has its \<^verbatim>\<open>_id\<close> (drawn from the library's global counter when the
  element is constructed), \<^verbatim>\<open>tag\<close>, \<^verbatim>\<open>attrib\<close> (an object with string keys, kept as
  an association list in insertion order), \<^verbatim>\<open>text\<close> and \<^verbatim>\<open>_children\<close>. An object
  reference is modelled by the element's \<open>uid\<close>: to remove a child or to mutate a node is
  to remove or mutate the element of that id.
\<close>

datatype element =
  Element (uid: nat) (tag: string) (attrib: "(string \<times> string) list")
          (etext: "string option") (children: "element list")

text \<open>
  The state: \<^verbatim>\<open>this._file\<close>, the root element (which both \<^verbatim>\<open>this._root\<close> and
  \<^verbatim>\<open>this._doc.getroot()\<close> refer to), and the library's element counter.
\<close>

record state =
  cfg_file :: string
  root :: element
  element_ids :: nat

text \<open>\<^verbatim>\<open>new et.Element(tag)\<close>: no attributes, no text, no children, the next id.\<close>

definition new_Element :: "string \<Rightarrow> nat \<Rightarrow> element \<times> nat" where
  "new_Element t n = (Element n t [] None [], Suc n)"

text \<open>\<^verbatim>\<open>el.attrib[k] = v\<close>.\<close>

definition set_attrib :: "string \<Rightarrow> string \<Rightarrow> element \<Rightarrow> element" where
  "set_attrib k v el =
     (case el of Element i t a x cs \<Rightarrow> Element i t (AList.update k v a) x cs)"

text \<open>\<^verbatim>\<open>el.get(k)\<close>: the attribute's value, \<open>None\<close> for \<^verbatim>\<open>undefined\<close>.\<close>

definition Element_get :: "element \<Rightarrow> string \<Rightarrow> string option" where
  "Element_get el k = map_of (attrib el) k"

text \<open>\<^verbatim>\<open>el.append(child)\<close> pushes the child at the end of \<^verbatim>\<open>_children\<close>.\<close>

definition Element_append :: "element \<Rightarrow> element \<Rightarrow> element" where
  "Element_append el child =
     (case el of Element i t a x cs \<Rightarrow> Element i t a x (cs @ [child]))"

text \<open>\<^verbatim>\<open>el.remove(child)\<close> keeps the children whose \<^verbatim>\<open>_id\<close> is not the child's.\<close>

definition Element_remove :: "element \<Rightarrow> element \<Rightarrow> element" where
  "Element_remove el child =
     (case el of Element i t a x cs \<Rightarrow>
        Element i t a x (filter (\<lambda>e. uid e \<noteq> uid child) cs))"

text \<open>
  A method called on an object found by a lookup mutates that object where it sits in
  the tree: \<open>modify_node i f\<close> applies \<open>f\<close> to the node whose \<open>uid\<close> is \<open>i\<close>.
\<close>

fun modify_node :: "nat \<Rightarrow> (element \<Rightarrow> element) \<Rightarrow> element \<Rightarrow> element" where
  "modify_node i f (Element j t a x cs) =
     (if j = i then f (Element j t a x cs)
      else Element j t a x (map (modify_node i f) cs))"

text \<open>The ids of all the elements of a tree.\<close>

fun uids :: "element \<Rightarrow> nat list" where
  "uids (Element i t a x cs) = i # concat (map uids cs)"

subsection \<open>Lookups by path\<close>

text \<open>
  Modelled from the spec: the tree contract of its section 6 (\<open>findFirst\<close>, \<open>findAll\<close>),
  whose path syntax is child-by-tag (\<^verbatim>\<open>./tag\<close>) and attribute equality
  (\<^verbatim>\<open>./tag/[@attr="value"]\<close>). The library that implements it is not part of the
  sources. A path that the source builds by concatenation is represented by its steps:
  \<^verbatim>\<open>'./access/[@origin="' + origin + '"]'\<close> is \<open>[Self, Child ''access'', AttrEq ''origin'' origin]\<close>.
  The library's tokenizer is not modelled, so a value containing a double quote, which
  would end the quoted token early, is outside what the model says.
\<close>

datatype step = Self | Child string | AttrEq string string

fun select :: "step \<Rightarrow> element list \<Rightarrow> element list" where
  "select Self result = result"
| "select (Child t) result =
     concat (map (\<lambda>elem. filter (\<lambda>e. tag e = t) (children elem)) result)"
| "select (AttrEq k v) result = filter (\<lambda>elem. Element_get elem k = Some v) result"

definition Element_findall :: "element \<Rightarrow> step list \<Rightarrow> element list" where
  "Element_findall elem path = foldl (\<lambda>result st. select st result) [elem] path"

text \<open>The first match, \<open>None\<close> for \<^verbatim>\<open>null\<close>.\<close>

definition Element_find :: "element \<Rightarrow> step list \<Rightarrow> element option" where
  "Element_find elem path =
     (case Element_findall elem path of [] \<Rightarrow> None | e # _ \<Rightarrow> Some e)"

subsection \<open>Strings\<close>

text \<open>\<open>startsWith s t\<close>: the string \<open>s\<close> begins with \<open>t\<close>.\<close>

fun startsWith :: "string \<Rightarrow> string \<Rightarrow> bool" where
  "startsWith s [] = True"
| "startsWith [] (d # t) = False"
| "startsWith (c # s) (d # t) = (c = d \<and> startsWith s t)"

text \<open>\<^verbatim>\<open>s.indexOf(t)\<close>: the least index at which \<open>t\<close> occurs in \<open>s\<close>, or \<open>-1\<close>.\<close>

fun indexOf :: "string \<Rightarrow> string \<Rightarrow> int" where
  "indexOf [] t = (if t = [] then 0 else -1)"
| "indexOf (c # s) t =
     (if startsWith (c # s) t then 0
      else (let i = indexOf s t in if i < 0 then -1 else i + 1))"

text \<open>
  \<^verbatim>\<open>s.replace(t, r)\<close> for a string pattern \<open>t\<close> and a replacement without \<^verbatim>\<open>$\<close>:
  the first occurrence of \<open>t\<close> is replaced by \<open>r\<close>.
\<close>

fun replace :: "string \<Rightarrow> string \<Rightarrow> string \<Rightarrow> string" where
  "replace [] t r = (if t = [] then r else [])"
| "replace (c # s) t r =
     (if startsWith (c # s) t then r @ drop (length t) (c # s)
      else c # replace s t r)"

text \<open>\<^verbatim>\<open>s.substring(i)\<close>: a negative start counts as 0.\<close>

definition substring :: "string \<Rightarrow> int \<Rightarrow> string" where
  "substring s i = drop (nat i) s"

text \<open>\<^verbatim>\<open>xs.indexOf(x)\<close> on an array.\<close>

fun Array_indexOf :: "'a list \<Rightarrow> 'a \<Rightarrow> int" where
  "Array_indexOf [] x = -1"
| "Array_indexOf (y # ys) x =
     (if y = x then 0
      else (let i = Array_indexOf ys x in if i < 0 then -1 else i + 1))"

subsection \<open>Regular expressions\<close>

text \<open>
  The patterns of the source are of the form \<^verbatim>\<open>^r$\<close>, without flags, backreferences
  or lookaround, so \<^verbatim>\<open>new RegExp(p).test(s)\<close> says whether the whole of \<open>s\<close> is in the
  language of \<open>r\<close>. Membership is decided by derivatives.
\<close>

datatype regex =
  Nothing | Empty | Chars "char \<Rightarrow> bool"
  | Seq regex regex | Alt regex regex | Star regex

fun nullable :: "regex \<Rightarrow> bool" where
  "nullable Nothing = False"
| "nullable Empty = True"
| "nullable (Chars p) = False"
| "nullable (Seq r q) = (nullable r \<and> nullable q)"
| "nullable (Alt r q) = (nullable r \<or> nullable q)"
| "nullable (Star r) = True"

fun deriv :: "char \<Rightarrow> regex \<Rightarrow> regex" where
  "deriv c Nothing = Nothing"
| "deriv c Empty = Nothing"
| "deriv c (Chars p) = (if p c then Empty else Nothing)"
| "deriv c (Seq r q) =
     (if nullable r then Alt (Seq (deriv c r) q) (deriv c q) else Seq (deriv c r) q)"
| "deriv c (Alt r q) = Alt (deriv c r) (deriv c q)"
| "deriv c (Star r) = Seq (deriv c r) (Star r)"

definition RegExp_test :: "regex \<Rightarrow> string \<Rightarrow> bool" where
  "RegExp_test r s = nullable (foldl (\<lambda>q c. deriv c q) r s)"

text \<open>\<^verbatim>\<open>r+\<close>, \<^verbatim>\<open>r?\<close> and a literal character.\<close>

abbreviation Plus :: "regex \<Rightarrow> regex" where
  "Plus r \<equiv> Seq r (Star r)"

abbreviation Opt :: "regex \<Rightarrow> regex" where
  "Opt r \<equiv> Alt r Empty"

abbreviation Lit :: "char \<Rightarrow> regex" where
  "Lit c \<equiv> Chars (\<lambda>d. d = c)"

text \<open>The classes \<^verbatim>\<open>[0-9]\<close>, \<^verbatim>\<open>[1-9]\<close>, \<^verbatim>\<open>[0-9a-zA-Z]\<close>.\<close>

definition digit :: "char \<Rightarrow> bool" where
  "digit c = (c \<in> set ''0123456789'')"

definition digit19 :: "char \<Rightarrow> bool" where
  "digit19 c = (c \<in> set ''123456789'')"

definition alnum :: "char \<Rightarrow> bool" where
  "alnum c =
     (c \<in> set ''0123456789abcdefghijklmnopqrstuvwxyzABCDEFGHIJKLMNOPQRSTUVWXYZ'')"

text \<open>
  \<^verbatim>\<open>.\<close> matches every character but a line terminator (of which line feed and
  carriage return are representable).
\<close>

definition dot :: "char \<Rightarrow> bool" where
  "dot c = (c \<noteq> CHR 0x0A \<and> c \<noteq> CHR 0x0D)"

text \<open>
  The pattern strings are written in the source as string literals, in which a
  backslash before a character that starts no escape sequence is dropped:
  \<^verbatim>\<open>'^[0-9]+\.[0-9]+\.[0-9]+$'\<close> is the pattern \<^verbatim>\<open>^[0-9]+.[0-9]+.[0-9]+$\<close>, and
  \<^verbatim>\<open>'^[1-9][0-9]*(\.[0-9]+){0,2}$'\<close> is \<^verbatim>\<open>^[1-9][0-9]*(.[0-9]+){0,2}$\<close>.
\<close>

definition version_regex :: regex where
  "version_regex =
     Seq (Plus (Chars digit)) (Seq (Chars dot) (Seq (Plus (Chars digit))
       (Seq (Chars dot) (Plus (Chars digit)))))"

definition android_regex :: regex where
  "android_regex = Plus (Chars digit)"

definition ios_regex :: regex where
  "ios_regex =
     Seq (Chars digit19) (Seq (Star (Chars digit))
       (Opt (Seq (Seq (Chars dot) (Plus (Chars digit)))
                 (Opt (Seq (Chars dot) (Plus (Chars digit)))))))"

text \<open>
  The pattern of \<open>setID\<close>, after the string literal's escapes, is
  \<^verbatim>\<open>^[0-9a-zA-Z]([-.w]*[0-9a-zA-Z])*(:(0-9)*)*(/?)([a-zA-Z0-9-.?,'/\+&amp;%$#_]*)?$\<close>
  where the last class also holds the two characters U+200C and U+200B (after the
  hyphen), which are beyond the characters of the model.
\<close>

definition id_class :: "char \<Rightarrow> bool" where
  \<open>id_class c = (alnum c \<or> c \<in> set ''-.?,/+&amp;%$#_'' \<or> c = CHR 0x27)\<close>

definition id_regex :: regex where
  "id_regex =
     Seq (Chars alnum)
      (Seq (Star (Seq (Star (Chars (\<lambda>c. c \<in> set ''-.w''))) (Chars alnum)))
       (Seq (Star (Seq (Lit CHR '':'') (Star (Seq (Lit CHR ''0'') (Seq (Lit CHR ''-'') (Lit CHR ''9''))))))
        (Seq (Opt (Lit CHR ''/''))
             (Opt (Star (Chars id_class))))))"

subsection \<open>What a pattern accepts\<close>

text \<open>The language of a regular expression, to state what \<open>RegExp_test\<close> decides.\<close>

inductive_set star :: "string set \<Rightarrow> string set" for A :: "string set" where
  star_nil: "[] \<in> star A"
| star_step: "u \<in> A \<Longrightarrow> w \<in> star A \<Longrightarrow> u @ w \<in> star A"

fun lang :: "regex \<Rightarrow> string set" where
  "lang Nothing = {}"
| "lang Empty = {[]}"
| "lang (Chars p) = {[c] | c. p c}"
| "lang (Seq r q) = {u @ v | u v. u \<in> lang r \<and> v \<in> lang q}"
| "lang (Alt r q) = lang r \<union> lang q"
| "lang (Star r) = star (lang r)"

text \<open>
  The version strings in the spec's words: three components separated by full stops,
  each a non-negative integer, that is, one or more digits.
\<close>

definition digits :: "string \<Rightarrow> bool" where
  "digits w = (w \<noteq> [] \<and> list_all digit w)"

definition major_minor_patch :: "string \<Rightarrow> bool" where
  "major_minor_patch s =
     (\<exists>a b c. s = a @ ''.'' @ b @ ''.'' @ c \<and> digits a \<and> digits b \<and> digits c)"

text \<open>
  The iOS bundle versions in the spec's words: one to three components separated by
  full stops, the first a number that does not begin with 0, the others non-negative
  integers.
\<close>

definition nonzero_leading :: "string \<Rightarrow> bool" where
  "nonzero_leading w = (case w of [] \<Rightarrow> False | d # ds \<Rightarrow> digit19 d \<and> list_all digit ds)"

definition ios_bundle_version :: "string \<Rightarrow> bool" where
  "ios_bundle_version s =
     (\<exists>a. nonzero_leading a \<and>
        (s = a \<or>
         (\<exists>b. digits b \<and>
            (s = a @ ''.'' @ b \<or> (\<exists>c. digits c \<and> s = a @ ''.'' @ b @ ''.'' @ c)))))"

subsection \<open>The validated setters\<close>

text \<open>
  Each tests its pattern, throws on a mismatch, and otherwise writes one attribute of
  the root. The values are strings (a number given to \<open>setAndroidVersionCode\<close> is tested
  through its decimal string).
\<close>

definition setID :: "string \<Rightarrow> state \<Rightarrow> (error + unit) \<times> state" where
  "setID ident s =
     (if \<not> RegExp_test id_regex ident
      then (Inl (Error ''Please provide a valid id.''), s)
      else (Inr (), s\<lparr>root := set_attrib ''id'' ident (root s)\<rparr>))"

definition setVersion :: "string \<Rightarrow> state \<Rightarrow> (error + unit) \<times> state" where
  "setVersion version s =
     (if \<not> RegExp_test version_regex version
      then (Inl (Error ''Please provide a valid version number.''), s)
      else (Inr (), s\<lparr>root := set_attrib ''version'' version (root s)\<rparr>))"

definition setAndroidVersionCode :: "string \<Rightarrow> state \<Rightarrow> (error + unit) \<times> state" where
  "setAndroidVersionCode versionCode s =
     (if \<not> RegExp_test android_regex versionCode
      then (Inl (Error ''Please provide a valid Android version code.''), s)
      else (Inr (), s\<lparr>root := set_attrib ''android-versionCode'' versionCode (root s)\<rparr>))"

definition setIOSBundleVersion :: "string \<Rightarrow> state \<Rightarrow> (error + unit) \<times> state" where
  "setIOSBundleVersion version s =
     (if \<not> RegExp_test ios_regex version
      then (Inl (Error ''Please provide a valid iOS bundle version number.''), s)
      else (Inr (), s\<lparr>root := set_attrib ''ios-CFBundleVersion'' version (root s)\<rparr>))"

subsection \<open>Hooks\<close>

definition cordovaHookTypes :: "string list" where
  "cordovaHookTypes =
     [''after_build'', ''after_compile'', ''after_clean'', ''after_docs'', ''after_emulate'',
      ''after_platform_add'', ''after_platform_rm'', ''after_platform_ls'', ''after_plugin_add'',
      ''after_plugin_ls'', ''after_plugin_rm'', ''after_plugin_search'', ''after_plugin_install'',
      ''after_prepare'', ''after_run'', ''after_serve'', ''before_build'', ''before_clean'',
      ''before_compile'', ''before_docs'', ''before_emulate'', ''before_platform_add'',
      ''before_platform_rm'', ''before_platform_ls'', ''before_plugin_add'', ''before_plugin_ls'',
      ''before_plugin_rm'', ''before_plugin_search'', ''before_plugin_install'',
      ''before_plugin_uninstall'', ''before_prepare'', ''before_run'', ''before_serve'',
      ''pre_package'']"

definition addHook :: "string \<Rightarrow> string \<Rightarrow> state \<Rightarrow> (error + unit) \<times> state" where
  "addHook type src s =
     (if Array_indexOf cordovaHookTypes type = -1
      then (Inl (Error ''Please provide a valid hook target''), s)
      else
        (let (hook, n) = new_Element ''hook'' (element_ids s);
             hook1 = set_attrib ''type'' type hook;
             hook2 = set_attrib ''src'' src hook1
         in (Inr (), s\<lparr>root := Element_append (root s) hook2, element_ids := n\<rparr>)))"

subsection \<open>Access origins\<close>

definition removeAccessOrigins :: "state \<Rightarrow> state" where
  "removeAccessOrigins s =
     foldl (\<lambda>s' t. s'\<lparr>root := Element_remove (root s') t\<rparr>) s
       (Element_findall (root s) [Self, Child ''access''])"

definition removeAccessOrigin :: "string \<Rightarrow> state \<Rightarrow> state" where
  "removeAccessOrigin origin s =
     (case Element_find (root s) [Self, Child ''access'', AttrEq ''origin'' origin] of
        Some accessOrigin \<Rightarrow> s\<lparr>root := Element_remove (root s) accessOrigin\<rparr>
      | None \<Rightarrow> s)"

text \<open>\<open>options\<close> is an object with string keys and values, or absent.\<close>

definition setAccessOrigin ::
  "string \<Rightarrow> (string \<times> string) list option \<Rightarrow> state \<Rightarrow> state" where
  "setAccessOrigin origin options s =
     (let opts = (case options of None \<Rightarrow> [] | Some kvs \<Rightarrow> kvs);
          s1 = removeAccessOrigin origin s;
          (accessOrigin, n) = new_Element ''access'' (element_ids s1);
          a1 = set_attrib ''origin'' origin accessOrigin;
          a2 = foldl (\<lambda>el (k, v). set_attrib k v el) a1 opts
      in s1\<lparr>root := Element_append (root s1) a2, element_ids := n\<rparr>)"

subsection \<open>Preferences\<close>

text \<open>
  The constructor assigns \<^verbatim>\<open>_file\<close>, \<^verbatim>\<open>_doc\<close> and \<^verbatim>\<open>_root\<close>, and no method assigns
  any other property: \<^verbatim>\<open>this.platformElement\<close> is \<^verbatim>\<open>undefined\<close>.
\<close>

definition this_platformElement :: "state \<Rightarrow> element option" where
  "this_platformElement s = None"

text \<open>
  A method call \<^verbatim>\<open>this.platformElement.m(...)\<close>: a TypeError when the receiver is
  undefined, else the mutation \<open>f\<close> of the receiver.
\<close>

definition on_this_platformElement ::
  "(element \<Rightarrow> element) \<Rightarrow> state \<Rightarrow> (error + unit) \<times> state" where
  "on_this_platformElement f s =
     (case this_platformElement s of
        None \<Rightarrow> (Inl TypeError, s)
      | Some pe \<Rightarrow> (Inr (), s\<lparr>root := modify_node (uid pe) f (root s)\<rparr>))"

text \<open>
  The local variable \<^verbatim>\<open>platformElement\<close>: the root when no (or an empty) platform is
  given, else the platform element of that name, created and appended when missing.
\<close>

definition platform_scope :: "string option \<Rightarrow> state \<Rightarrow> element \<times> state" where
  "platform_scope platform s =
     (case platform of
        None \<Rightarrow> (root s, s)
      | Some p \<Rightarrow>
          if p = [] then (root s, s)
          else
            (case Element_find (root s) [Self, Child ''platform'', AttrEq ''name'' p] of
               Some el \<Rightarrow> (el, s)
             | None \<Rightarrow>
                 (let (el, n) = new_Element ''platform'' (element_ids s);
                      el1 = set_attrib ''name'' p el
                  in (el1, s\<lparr>root := Element_append (root s) el1, element_ids := n\<rparr>))))"

definition setPreference ::
  "string \<Rightarrow> string \<Rightarrow> string option \<Rightarrow> state \<Rightarrow> (error + unit) \<times> state" where
  "setPreference name val platform s =
     (let (platformElement, s1) = platform_scope platform s in
      case (case Element_find platformElement [Self, Child ''preference'', AttrEq ''name'' name] of
              Some preference \<Rightarrow> on_this_platformElement (\<lambda>e. Element_remove e preference) s1
            | None \<Rightarrow> (Inr (), s1)) of
        (Inl e, s2) \<Rightarrow> (Inl e, s2)
      | (Inr u, s2) \<Rightarrow>
          (let (preference, n) = new_Element ''preference'' (element_ids s2);
               p1 = set_attrib ''name'' name preference;
               p2 = set_attrib ''value'' val p1
           in on_this_platformElement (\<lambda>e. Element_append e p2) (s2\<lparr>element_ids := n\<rparr>)))"

subsection \<open>Loading\<close>

text \<open>
  \<open>readFileSync\<close> (the file system) and \<open>XML\<close> (the library's parser, which draws the
  ids of the elements it builds from the counter) are parameters.
\<close>

definition parse ::
  "(string \<Rightarrow> error + string) \<Rightarrow> (string \<Rightarrow> nat \<Rightarrow> (error + element) \<times> nat) \<Rightarrow>
   string \<Rightarrow> nat \<Rightarrow> (error + element) \<times> nat" where
  \<open>parse readFileSync XML fname n =
     (case readFileSync fname of
        Inl e \<Rightarrow> (Inl e, n)
      | Inr contents \<Rightarrow>
          (let contents1 =
                 (if contents \<noteq> [] then substring contents (indexOf contents ''<'')
                  else contents)
           in case XML contents1 n of
                (Inl e, n1) \<Rightarrow> (Inl e, n1)
              | (Inr rt, n1) \<Rightarrow>
                  if tag rt \<noteq> ''widget''
                  then (Inl (Error (fname @ '' has incorrect root node name (expected "widget", was "''
                                     @ tag rt @ ''")'')), n1)
                  else (Inr rt, n1)))\<close>

text \<open>The constructor \<^verbatim>\<open>Config(file)\<close>.\<close>

definition Config ::
  "(string \<Rightarrow> error + string) \<Rightarrow> (string \<Rightarrow> nat \<Rightarrow> (error + element) \<times> nat) \<Rightarrow>
   string \<Rightarrow> nat \<Rightarrow> error + state" where
  "Config readFileSync XML fname n =
     (case parse readFileSync XML fname n of
        (Inl e, n1) \<Rightarrow> Inl e
      | (Inr rt, n1) \<Rightarrow> Inr \<lparr>cfg_file = fname, root = rt, element_ids = n1\<rparr>)"

subsection \<open>Raw XML\<close>

definition fixAbsoluteXPath :: "element \<Rightarrow> string option \<Rightarrow> string option" where
  "fixAbsoluteXPath doc path =
     (let prefix = ''/'' @ tag doc in
      case path of
        None \<Rightarrow> None
      | Some p \<Rightarrow>
          if p \<noteq> [] \<and> indexOf p prefix = 0 then Some (replace p prefix ''.'')
          else Some p)"

text \<open>
  \<open>lookup\<close> is \<^verbatim>\<open>this._doc.find\<close> on a path string given by the caller: the first
  match, \<open>None\<close> for \<^verbatim>\<open>null\<close>, or what the library throws for a path it rejects.
  \<open>XML\<close> is the library's parser. Both are parameters.
\<close>

text \<open>The local variable \<^verbatim>\<open>parent\<close>.\<close>

definition addRawXML_parent ::
  "(string \<Rightarrow> element \<Rightarrow> error + element option) \<Rightarrow> string option \<Rightarrow> state \<Rightarrow>
   error + element option" where
  "addRawXML_parent lookup atXPath s =
     (case fixAbsoluteXPath (root s) atXPath of
        None \<Rightarrow> Inr (Some (root s))
      | Some p \<Rightarrow> if p \<noteq> [] then lookup p (root s) else Inr (Some (root s)))"

text \<open>The local variable \<^verbatim>\<open>alreadyExists\<close>, as the truth value the condition reads.\<close>

definition addRawXML_alreadyExists ::
  "(string \<Rightarrow> element \<Rightarrow> error + element option) \<Rightarrow> string option \<Rightarrow> state \<Rightarrow>
   error + bool" where
  "addRawXML_alreadyExists lookup ifXPathDoesNotExist s =
     (case fixAbsoluteXPath (root s) ifXPathDoesNotExist of
        None \<Rightarrow> Inr False
      | Some q \<Rightarrow>
          if q \<noteq> [] then
            (case lookup q (root s) of
               Inl e \<Rightarrow> Inl e
             | Inr found \<Rightarrow> Inr (found \<noteq> None))
          else Inr False)"

definition addRawXML ::
  "(string \<Rightarrow> element \<Rightarrow> error + element option) \<Rightarrow>
   (string \<Rightarrow> nat \<Rightarrow> (error + element) \<times> nat) \<Rightarrow>
   string \<Rightarrow> string option \<Rightarrow> string option \<Rightarrow> state \<Rightarrow> (error + unit) \<times> state" where
  "addRawXML lookup XML raw atXPath ifXPathDoesNotExist s =
     (case addRawXML_parent lookup atXPath s of
        Inl e \<Rightarrow> (Inl e, s)
      | Inr parent \<Rightarrow>
          (case addRawXML_alreadyExists lookup ifXPathDoesNotExist s of
             Inl e \<Rightarrow> (Inl e, s)
           | Inr alreadyExists \<Rightarrow>
               (case parent of
                  None \<Rightarrow> (Inr (), s)
                | Some par \<Rightarrow>
                    if \<not> alreadyExists then
                      (case XML raw (element_ids s) of
                         (Inl e, n) \<Rightarrow> (Inl e, s\<lparr>element_ids := n\<rparr>)
                       | (Inr xml, n) \<Rightarrow>
                           (Inr (),
                            s\<lparr>root := modify_node (uid par) (\<lambda>e. Element_append e xml) (root s),
                              element_ids := n\<rparr>))
                    else (Inr (), s))))"

subsection \<open>Instances of the parameters, and example documents\<close>

text \<open>
  Modelled from the spec: the lookup of the tree contract on a path string, for paths
  made of \<^verbatim>\<open>.\<close> and tag names separated by \<^verbatim>\<open>/\<close>. An absolute path is rejected:
  the tree supports relative addressing only (section 2 of the spec, and the comment on
  \<^verbatim>\<open>fixAbsoluteXPath\<close> in the source). Predicates in a path string are not read.
\<close>

fun split_slash :: "string \<Rightarrow> string list" where
  "split_slash [] = [[]]"
| "split_slash (c # s) =
     (if c = CHR ''/'' then [] # split_slash s
      else (case split_slash s of [] \<Rightarrow> [[c]] | seg # segs \<Rightarrow> (c # seg) # segs))"

definition ElementTree_find :: "string \<Rightarrow> element \<Rightarrow> error + element option" where
  "ElementTree_find path elem =
     (if startsWith path ''/'' then Inl SyntaxError
      else Inr (Element_find elem
                  (map (\<lambda>seg. if seg = ''.'' then Self else Child seg) (split_slash path))))"

text \<open>
  A parser that reads one empty element \<^verbatim>\<open><name/>\<close> and rejects every other text;
  it stands for the library's parser on the examples below.
\<close>

definition XML_empty_element :: "string \<Rightarrow> nat \<Rightarrow> (error + element) \<times> nat" where
  "XML_empty_element raw n =
     (let name = take (length raw - 3) (drop 1 raw) in
      if raw = ''<'' @ name @ ''/>'' \<and> name \<noteq> [] \<and> list_all alnum name
      then (Inr (Element n name [] None []), Suc n)
      else (Inl SyntaxError, n))"

text \<open>The document \<^verbatim>\<open><widget/>\<close> in \<^verbatim>\<open>config.xml\<close>.\<close>

definition widget_doc :: state where
  "widget_doc =
     \<lparr>cfg_file = ''config.xml'', root = Element 0 ''widget'' [] None [], element_ids = 1\<rparr>"

text \<open>A file system with two files, the second with a byte order mark before the markup.\<close>

definition example_fs :: "string \<Rightarrow> error + string" where
  "example_fs fname =
     (if fname = ''config.xml'' then Inr ''<widget/>''
      else if fname = ''plugin.xml'' then Inr (CHR 0xEF # CHR 0xBB # CHR 0xBF # ''<plugin/>'')
      else Inl (Error ''ENOENT''))"

text \<open>
  A document with two access elements of the same origin and a name element between
  them.
\<close>

definition duplicate_doc :: state where
  "duplicate_doc =
     \<lparr>cfg_file = ''config.xml'',
      root = Element 0 ''widget'' [(''id'', ''com.example.app'')] None
               [Element 1 ''access'' [(''origin'', ''https://a.com'')] None [],
                Element 2 ''name'' [] (Some ''App'') [],
                Element 3 ''access'' [(''origin'', ''https://a.com'')] None []],
      element_ids = 4\<rparr>"

text \<open>
  An access element of the given origin, as the path
  \<^verbatim>\<open>./access/[@origin="..."]\<close> selects it among the children of the root.
\<close>

definition access_origin :: "string \<Rightarrow> element \<Rightarrow> bool" where
  "access_origin origin e = (tag e = ''access'' \<and> Element_get e ''origin'' = Some origin)"

text \<open>
  The library gives every element it constructs the next value of its counter, so the
  ids of distinct objects differ and lie below the counter. For the children of the
  root:
\<close>

definition ids_ok :: "state \<Rightarrow> bool" where
  "ids_ok s =
     (distinct (map uid (children (root s))) \<and>
      list_all (\<lambda>c. uid c < element_ids s) (children (root s)))"

section \<open>Properties\<close>

subsection \<open>Array and string helpers\<close>

lemma Array_indexOf_ge: "- 1 \<le> Array_indexOf xs x"
  by (induction xs) (auto simp: Let_def)

lemma Array_indexOf_absent: "(Array_indexOf xs x = - 1) = (x \<notin> set xs)"
proof (induction xs)
  case Nil
  show ?case by simp
next
  case (Cons y ys)
  have "- 1 \<le> Array_indexOf ys x" by (rule Array_indexOf_ge)
  with Cons show ?case by (auto simp: Let_def)
qed

lemma startsWith_append: "startsWith s t = (\<exists>r. s = t @ r)"
  by (induction s t rule: startsWith.induct) auto

lemma indexOf_ge: "- 1 \<le> indexOf s t"
  by (induction s) (auto simp: Let_def)

lemma indexOf_zero: "(indexOf s t = 0) = startsWith s t"
proof (cases s)
  case Nil
  then show ?thesis by (cases t) auto
next
  case (Cons c cs)
  have "- 1 \<le> indexOf cs t" by (rule indexOf_ge)
  then show ?thesis using Cons by (auto simp: Let_def)
qed

lemma replace_prefix: "replace (t @ r) t q = q @ r"
proof (cases "t @ r")
  case Nil
  then show ?thesis by simp
next
  case (Cons c cs)
  have "startsWith (t @ r) t" by (simp add: startsWith_append)
  then show ?thesis using Cons by (metis replace.simps(2) append_eq_conv_conj)
qed

lemma cordovaHookTypes_distinct: "distinct cordovaHookTypes"
  by (simp add: cordovaHookTypes_def)

text \<open>
  The list pairs \<open>before_\<close> and \<open>after_\<close> for every event but one: there is no
  \<open>after_plugin_uninstall\<close>.
\<close>

lemma after_plugin_uninstall_absent:
  "''before_plugin_uninstall'' \<in> set cordovaHookTypes
   \<and> ''after_plugin_uninstall'' \<notin> set cordovaHookTypes"
  by (simp add: cordovaHookTypes_def)

subsection \<open>Preferences\<close>

text \<open>
  C1 says that \<open>setPreference("foo", "bar")\<close>, called twice, succeeds and leaves exactly
  one preference named \<open>foo\<close> under the root. The code does not get that far: both the
  removal and the append are called on \<^verbatim>\<open>this.platformElement\<close>, a property that does
  not exist, instead of on the local variable \<^verbatim>\<open>platformElement\<close>. Every call throws a
  TypeError, whatever the document and the arguments; on the document \<^verbatim>\<open><widget/>\<close> the
  call of the claim throws and leaves the root without a preference.
\<close>

theorem setPreference_throws:
  "fst (setPreference name val platform s) = Inl TypeError
   \<and> setPreference ''foo'' ''bar'' None widget_doc = (Inl TypeError, widget_doc\<lparr>element_ids := 2\<rparr>)"
proof
  show "fst (setPreference name val platform s) = Inl TypeError"
    by (auto simp: setPreference_def on_this_platformElement_def this_platformElement_def
          new_Element_def split: prod.splits option.splits sum.splits)
  show "setPreference ''foo'' ''bar'' None widget_doc = (Inl TypeError, widget_doc\<lparr>element_ids := 2\<rparr>)"
    by (simp add: setPreference_def on_this_platformElement_def this_platformElement_def
          new_Element_def platform_scope_def widget_doc_def Element_find_def Element_findall_def)
qed

subsection \<open>Validation\<close>

text \<open>The derivative matcher decides membership in the language.\<close>

lemma nullable_lang: "nullable r = ([] \<in> lang r)"
  by (induction r) (auto intro: star_nil)

lemma star_cons_elim:
  assumes "x \<in> star A" and "x = c # w"
  shows "\<exists>u v. w = u @ v \<and> c # u \<in> A \<and> v \<in> star A"
  using assms
proof (induction arbitrary: w rule: star.induct)
  case star_nil
  then show ?case by simp
next
  case (star_step u v)
  show ?case
  proof (cases u)
    case Nil
    then show ?thesis using star_step by simp
  next
    case (Cons d u')
    then have "w = u' @ v" "c # u' \<in> A"
      using star_step.hyps(1) star_step.prems by simp_all
    then show ?thesis using star_step.hyps(2) by blast
  qed
qed

lemma star_cons:
  "(c # w \<in> star A) = (\<exists>u v. w = u @ v \<and> c # u \<in> A \<and> v \<in> star A)"
proof
  assume "c # w \<in> star A"
  then show "\<exists>u v. w = u @ v \<and> c # u \<in> A \<and> v \<in> star A"
    by (rule star_cons_elim) simp
next
  assume "\<exists>u v. w = u @ v \<and> c # u \<in> A \<and> v \<in> star A"
  then obtain u v where "w = u @ v" "c # u \<in> A" "v \<in> star A" by blast
  then show "c # w \<in> star A"
    using star_step [of "c # u" A v] by simp
qed

lemma deriv_lang: "(w \<in> lang (deriv c r)) = (c # w \<in> lang r)"
proof (induction r arbitrary: w)
  case (Seq r q)
  show ?case
  proof (cases "nullable r")
    case True
    then have "[] \<in> lang r" by (simp add: nullable_lang)
    then show ?thesis
      using True Seq by (auto simp: Cons_eq_append_conv; blast)
  next
    case False
    then have "[] \<notin> lang r" by (simp add: nullable_lang)
    then show ?thesis
      using False Seq by (auto simp: Cons_eq_append_conv; blast)
  qed
next
  case (Star r)
  then show ?case by (auto simp: star_cons)
qed auto

lemma RegExp_test_lang: "RegExp_test r s = (s \<in> lang r)"
proof -
  have "nullable (foldl (\<lambda>q c. deriv c q) r s) = (s \<in> lang r)"
  proof (induction s arbitrary: r)
    case Nil
    show ?case by (simp add: nullable_lang)
  next
    case (Cons c s)
    show ?case by (simp add: Cons.IH deriv_lang)
  qed
  then show ?thesis by (simp add: RegExp_test_def)
qed

lemma star_chars: "(w \<in> star {[c] | c. p c}) = list_all p w"
proof (induction w)
  case Nil
  show ?case by (simp add: star_nil)
next
  case (Cons c w)
  then show ?case by (auto simp: star_cons)
qed

lemma lang_Seq: "(s \<in> lang (Seq r q)) = (\<exists>u v. s = u @ v \<and> u \<in> lang r \<and> v \<in> lang q)"
  by auto

lemma lang_Chars_Seq:
  "(w \<in> lang (Seq (Chars p) q)) = (\<exists>x v. w = x # v \<and> p x \<and> v \<in> lang q)"
proof
  assume "w \<in> lang (Seq (Chars p) q)"
  then obtain u v where "w = u @ v" "u \<in> lang (Chars p)" "v \<in> lang q"
    unfolding lang_Seq by blast
  then show "\<exists>x v. w = x # v \<and> p x \<and> v \<in> lang q" by auto
next
  assume "\<exists>x v. w = x # v \<and> p x \<and> v \<in> lang q"
  then obtain x v where "w = [x] @ v" "[x] \<in> lang (Chars p)" "v \<in> lang q" by auto
  then show "w \<in> lang (Seq (Chars p) q)"
    unfolding lang_Seq by blast
qed

lemma lang_plus_digit: "(w \<in> lang (Plus (Chars digit))) = digits w"
proof -
  have "(w \<in> lang (Plus (Chars digit))) = (\<exists>x v. w = x # v \<and> digit x \<and> list_all digit v)"
    unfolding lang_Chars_Seq by (simp add: star_chars)
  also have "\<dots> = digits w"
    by (cases w) (auto simp: digits_def)
  finally show ?thesis .
qed

lemma lang_dot_digits:
  "(w \<in> lang (Seq (Chars dot) (Plus (Chars digit)))) = (\<exists>y c. w = y # c \<and> dot y \<and> digits c)"
  unfolding lang_Chars_Seq [of w dot] lang_plus_digit ..

lemma lang_digits_dot_digits:
  "(w \<in> lang (Seq (Plus (Chars digit)) (Seq (Chars dot) (Plus (Chars digit))))) =
     (\<exists>b y c. w = b @ y # c \<and> digits b \<and> dot y \<and> digits c)"
  unfolding lang_Seq [of w "Plus (Chars digit)"] lang_dot_digits lang_plus_digit by blast

lemma lang_dot_digits_dot_digits:
  "(w \<in> lang (Seq (Chars dot) (Seq (Plus (Chars digit)) (Seq (Chars dot) (Plus (Chars digit)))))) =
     (\<exists>x b y c. w = x # b @ y # c \<and> dot x \<and> digits b \<and> dot y \<and> digits c)"
  unfolding lang_Chars_Seq [of w dot] lang_digits_dot_digits by blast

lemma version_regex_lang:
  "RegExp_test version_regex s =
     (\<exists>a x b y c. s = a @ x # b @ y # c \<and> digits a \<and> dot x \<and> digits b \<and> dot y \<and> digits c)"
  unfolding RegExp_test_lang version_regex_def
    lang_Seq [of s "Plus (Chars digit)"] lang_dot_digits_dot_digits lang_plus_digit
  by blast

lemma dot_full_stop: "dot CHR ''.''"
  by (simp add: dot_def)

text \<open>
  Every version string of the spec's form is accepted and becomes the root's version
  attribute.
\<close>

lemma setVersion_accepts_versions:
  assumes "major_minor_patch v"
  shows "setVersion v s = (Inr (), s\<lparr>root := set_attrib ''version'' v (root s)\<rparr>)"
    and "Element_get (root (snd (setVersion v s))) ''version'' = Some v"
proof -
  obtain a b c where "v = a @ ''.'' @ b @ ''.'' @ c" "digits a" "digits b" "digits c"
    using assms unfolding major_minor_patch_def by blast
  then have "RegExp_test version_regex v"
    unfolding version_regex_lang using dot_full_stop by auto blast
  then show "setVersion v s = (Inr (), s\<lparr>root := set_attrib ''version'' v (root s)\<rparr>)"
    by (simp add: setVersion_def)
  then show "Element_get (root (snd (setVersion v s))) ''version'' = Some v"
    by (cases "root s") (simp add: set_attrib_def Element_get_def update_conv')
qed

lemma not_major_minor_patch: "\<not> major_minor_patch ''1x2y3''"
proof
  assume "major_minor_patch ''1x2y3''"
  then obtain a b c where "''1x2y3'' = a @ ''.'' @ b @ ''.'' @ c"
    unfolding major_minor_patch_def by blast
  then have "CHR ''.'' \<in> set ''1x2y3''"
    by (metis append_Cons in_set_conv_decomp)
  then show False by simp
qed

text \<open>
  C2 says that \<open>setVersion\<close> accepts exactly the strings \<open>MAJOR.MINOR.PATCH\<close> and rejects
  every other string. The pattern is written as a string literal, so its \<^verbatim>\<open>\.\<close> reaches
  the regular expression as \<^verbatim>\<open>.\<close>, which matches any character: the string \<open>1x2y3\<close> is
  accepted and written to the root's version attribute.
\<close>

theorem setVersion_accepts_any_separator:
  "\<not> major_minor_patch ''1x2y3'' \<and>
   setVersion ''1x2y3'' widget_doc =
     (Inr (), widget_doc\<lparr>root := Element 0 ''widget'' [(''version'', ''1x2y3'')] None []\<rparr>)"
  using not_major_minor_patch
  by (simp add: setVersion_def RegExp_test_def version_regex_def digit_def dot_def
        widget_doc_def set_attrib_def)

text \<open>
  What every validated setter does: when its pattern accepts the value it writes the
  one attribute, which then holds the value, and leaves the other attributes, the tag,
  the text and the children of the root as they are; otherwise it throws its error and
  the state is the one before the call.
\<close>

lemma set_attrib_get:
  "Element_get (set_attrib k v e) k' = (if k' = k then Some v else Element_get e k')"
  by (cases e) (simp add: set_attrib_def Element_get_def update_conv')

lemma set_attrib_frame:
  "uid (set_attrib k v e) = uid e \<and> tag (set_attrib k v e) = tag e
   \<and> etext (set_attrib k v e) = etext e \<and> children (set_attrib k v e) = children e"
  by (cases e) (simp add: set_attrib_def)

lemma setters_apply_or_fail:
  "setID v s =
     (if RegExp_test id_regex v then (Inr (), s\<lparr>root := set_attrib ''id'' v (root s)\<rparr>)
      else (Inl (Error ''Please provide a valid id.''), s))"
  "setVersion v s =
     (if RegExp_test version_regex v then (Inr (), s\<lparr>root := set_attrib ''version'' v (root s)\<rparr>)
      else (Inl (Error ''Please provide a valid version number.''), s))"
  "setAndroidVersionCode v s =
     (if RegExp_test android_regex v
      then (Inr (), s\<lparr>root := set_attrib ''android-versionCode'' v (root s)\<rparr>)
      else (Inl (Error ''Please provide a valid Android version code.''), s))"
  "setIOSBundleVersion v s =
     (if RegExp_test ios_regex v
      then (Inr (), s\<lparr>root := set_attrib ''ios-CFBundleVersion'' v (root s)\<rparr>)
      else (Inl (Error ''Please provide a valid iOS bundle version number.''), s))"
  by (simp_all add: setID_def setVersion_def setAndroidVersionCode_def setIOSBundleVersion_def)

text \<open>
  The pattern of \<open>setAndroidVersionCode\<close> accepts exactly the strings of one or more
  digits, so this setter throws on every other value.
\<close>

lemma android_regex_lang: "RegExp_test android_regex v = digits v"
  by (simp only: RegExp_test_lang android_regex_def lang_plus_digit)

lemma setAndroidVersionCode_exact:
  "setAndroidVersionCode v s =
     (if digits v then (Inr (), s\<lparr>root := set_attrib ''android-versionCode'' v (root s)\<rparr>)
      else (Inl (Error ''Please provide a valid Android version code.''), s))"
  by (simp add: setters_apply_or_fail android_regex_lang)

text \<open>
  The pattern of \<open>setIOSBundleVersion\<close> accepts a number that does not begin with 0,
  followed by up to two groups of any character but a line terminator and one or more
  digits. Every bundle version of the spec's form is among these.
\<close>

lemma lang_Opt: "(w \<in> lang (Opt r)) = (w = [] \<or> w \<in> lang r)"
  by auto

lemma lang_star_digit: "(w \<in> lang (Star (Chars digit))) = list_all digit w"
  by (simp add: star_chars)

lemma dot_digits_then:
  "(\<exists>u v. t = u @ v \<and> (\<exists>y c. u = y # c \<and> dot y \<and> digits c) \<and> Q v) =
   (\<exists>x b u. t = x # b @ u \<and> dot x \<and> digits b \<and> Q u)"
proof (rule iffI)
  assume "\<exists>u v. t = u @ v \<and> (\<exists>y c. u = y # c \<and> dot y \<and> digits c) \<and> Q v"
  then obtain u v y c where "t = u @ v" "u = y # c" "dot y" "digits c" "Q v" by blast
  then have "t = y # c @ v \<and> dot y \<and> digits c \<and> Q v" by simp
  then show "\<exists>x b u. t = x # b @ u \<and> dot x \<and> digits b \<and> Q u" by blast
next
  assume "\<exists>x b u. t = x # b @ u \<and> dot x \<and> digits b \<and> Q u"
  then obtain x b u where "t = x # b @ u" "dot x" "digits b" "Q u" by blast
  then have "t = (x # b) @ u \<and> (\<exists>y c. x # b = y # c \<and> dot y \<and> digits c) \<and> Q u" by simp
  then show "\<exists>u v. t = u @ v \<and> (\<exists>y c. u = y # c \<and> dot y \<and> digits c) \<and> Q v" by blast
qed

lemma lang_ios_tail:
  "(t \<in> lang (Opt (Seq (Seq (Chars dot) (Plus (Chars digit)))
                        (Opt (Seq (Chars dot) (Plus (Chars digit))))))) =
     (t = [] \<or>
      (\<exists>x b u. t = x # b @ u \<and> dot x \<and> digits b \<and>
         (u = [] \<or> (\<exists>y c. u = y # c \<and> dot y \<and> digits c))))"
proof -
  let ?X = "Seq (Chars dot) (Plus (Chars digit))"
  have opt: "(v \<in> lang (Opt ?X)) = (v = [] \<or> (\<exists>y c. v = y # c \<and> dot y \<and> digits c))" for v
    unfolding lang_Opt [of v ?X] lang_dot_digits ..
  have "(t \<in> lang (Seq ?X (Opt ?X))) =
        (\<exists>u v. t = u @ v \<and> (\<exists>y c. u = y # c \<and> dot y \<and> digits c) \<and>
           (v = [] \<or> (\<exists>y c. v = y # c \<and> dot y \<and> digits c)))"
    unfolding lang_Seq [of t ?X "Opt ?X"] opt lang_dot_digits ..
  also have "\<dots> = (\<exists>x b u. t = x # b @ u \<and> dot x \<and> digits b \<and>
         (u = [] \<or> (\<exists>y c. u = y # c \<and> dot y \<and> digits c)))"
    by (rule dot_digits_then)
  finally show ?thesis
    unfolding lang_Opt [of t "Seq ?X (Opt ?X)"] by simp
qed

lemma nonzero_leading_then:
  "(\<exists>d v. w = d # v \<and> digit19 d \<and> (\<exists>ds t. v = ds @ t \<and> list_all digit ds \<and> P t)) =
   (\<exists>a t. w = a @ t \<and> nonzero_leading a \<and> P t)"
proof (rule iffI)
  assume "\<exists>d v. w = d # v \<and> digit19 d \<and> (\<exists>ds t. v = ds @ t \<and> list_all digit ds \<and> P t)"
  then obtain d ds t where "w = d # ds @ t" "digit19 d" "list_all digit ds" "P t" by blast
  then have "w = (d # ds) @ t \<and> nonzero_leading (d # ds) \<and> P t"
    by (simp add: nonzero_leading_def)
  then show "\<exists>a t. w = a @ t \<and> nonzero_leading a \<and> P t" by blast
next
  assume "\<exists>a t. w = a @ t \<and> nonzero_leading a \<and> P t"
  then obtain a t where a: "w = a @ t" "nonzero_leading a" "P t" by blast
  then obtain d ds where d: "a = d # ds" "digit19 d" "list_all digit ds"
    by (cases a) (auto simp: nonzero_leading_def)
  have "w = d # (ds @ t) \<and> digit19 d \<and> (\<exists>ds' t'. ds @ t = ds' @ t' \<and> list_all digit ds' \<and> P t')"
    using a d by auto
  then show "\<exists>d v. w = d # v \<and> digit19 d \<and> (\<exists>ds t. v = ds @ t \<and> list_all digit ds \<and> P t)"
    by blast
qed

lemma ios_regex_lang:
  "RegExp_test ios_regex s =
     (\<exists>a t. s = a @ t \<and> nonzero_leading a \<and>
        (t = [] \<or>
         (\<exists>x b u. t = x # b @ u \<and> dot x \<and> digits b \<and>
            (u = [] \<or> (\<exists>y c. u = y # c \<and> dot y \<and> digits c)))))"
proof -
  let ?X = "Seq (Chars dot) (Plus (Chars digit))"
  let ?T = "Opt (Seq ?X (Opt ?X))"
  have mid: "(v \<in> lang (Seq (Star (Chars digit)) ?T)) =
        (\<exists>ds t. v = ds @ t \<and> list_all digit ds \<and> t \<in> lang ?T)" for v
    unfolding lang_Seq [of v "Star (Chars digit)" ?T] lang_star_digit ..
  have "(s \<in> lang ios_regex) =
        (\<exists>d v. s = d # v \<and> digit19 d \<and>
           (\<exists>ds t. v = ds @ t \<and> list_all digit ds \<and> t \<in> lang ?T))"
    unfolding ios_regex_def lang_Chars_Seq [of s digit19] mid ..
  also have "\<dots> = (\<exists>a t. s = a @ t \<and> nonzero_leading a \<and> t \<in> lang ?T)"
    by (rule nonzero_leading_then)
  finally show ?thesis
    unfolding RegExp_test_lang lang_ios_tail .
qed

lemma setIOSBundleVersion_accepts_versions:
  assumes "ios_bundle_version v"
  shows "setIOSBundleVersion v s =
           (Inr (), s\<lparr>root := set_attrib ''ios-CFBundleVersion'' v (root s)\<rparr>)"
proof -
  obtain a where a: "nonzero_leading a"
    and f: "v = a \<or> (\<exists>b. digits b \<and>
            (v = a @ ''.'' @ b \<or> (\<exists>c. digits c \<and> v = a @ ''.'' @ b @ ''.'' @ c)))"
    using assms unfolding ios_bundle_version_def by blast
  from f consider "v = a" | b where "digits b" "v = a @ ''.'' @ b"
    | b c where "digits b" "digits c" "v = a @ ''.'' @ b @ ''.'' @ c"
    by blast
  then have "RegExp_test ios_regex v"
  proof cases
    case 1
    then have "v = a @ []" by simp
    then show ?thesis unfolding ios_regex_lang using a by blast
  next
    case 2
    then have "v = a @ (CHR ''.'' # b @ [])" by simp
    then show ?thesis unfolding ios_regex_lang using a 2(1) dot_full_stop by blast
  next
    case 3
    then have "v = a @ (CHR ''.'' # b @ (CHR ''.'' # c))" by simp
    then show ?thesis unfolding ios_regex_lang using a 3(1,2) dot_full_stop by blast
  qed
  then show ?thesis by (simp add: setters_apply_or_fail)
qed

lemma not_ios_bundle_version: "\<not> ios_bundle_version ''1x2''"
proof
  assume "ios_bundle_version ''1x2''"
  then obtain a where a: "nonzero_leading a"
    and f: "''1x2'' = a \<or> (\<exists>b. digits b \<and>
            (''1x2'' = a @ ''.'' @ b \<or> (\<exists>c. digits c \<and> ''1x2'' = a @ ''.'' @ b @ ''.'' @ c)))"
    unfolding ios_bundle_version_def by blast
  from f show False
  proof
    assume "''1x2'' = a"
    then have "nonzero_leading ''1x2''" using a by simp
    then show False by (simp add: nonzero_leading_def digit_def)
  next
    assume "\<exists>b. digits b \<and>
            (''1x2'' = a @ ''.'' @ b \<or> (\<exists>c. digits c \<and> ''1x2'' = a @ ''.'' @ b @ ''.'' @ c))"
    then obtain r where "''1x2'' = a @ ''.'' @ r" by auto
    then have "CHR ''.'' \<in> set ''1x2''"
      by (metis append_Cons in_set_conv_decomp)
    then show False by simp
  qed
qed

text \<open>
  C3 says that every validated setter, given a value that fails its validation check,
  throws and leaves the document unchanged. The check of the iOS bundle version is one
  to three components separated by full stops; the pattern is written as a string
  literal, so its \<^verbatim>\<open>\.\<close> reaches the regular expression as \<^verbatim>\<open>.\<close>, as in \<open>setVersion\<close>.
  The string \<open>1x2\<close> is no bundle version, and \<open>setIOSBundleVersion\<close> throws nothing on
  it and writes it to the root.
\<close>

theorem setIOSBundleVersion_accepts_any_separator:
  "\<not> ios_bundle_version ''1x2'' \<and>
   setIOSBundleVersion ''1x2'' widget_doc =
     (Inr (), widget_doc\<lparr>root := Element 0 ''widget'' [(''ios-CFBundleVersion'', ''1x2'')] None []\<rparr>)"
  using not_ios_bundle_version
  by (simp add: setIOSBundleVersion_def RegExp_test_def ios_regex_def digit_def digit19_def dot_def
        widget_doc_def set_attrib_def)

subsection \<open>Hooks\<close>

text \<open>
  C4: the list of hook types has 34 distinct names; \<open>addHook\<close> succeeds exactly on
  these. On success it appends one hook element with the attributes \<open>type\<close> and \<open>src\<close>
  at the end of the root's children, so that two equal calls append two hooks; on any
  other type it throws and the state is unchanged.
\<close>

theorem addHook_spec:
  "length cordovaHookTypes = 34 \<and> distinct cordovaHookTypes
   \<and> (fst (addHook t src s) = Inr ()) = (t \<in> set cordovaHookTypes)
   \<and> (t \<in> set cordovaHookTypes \<longrightarrow>
        addHook t src s =
          (Inr (),
           s\<lparr>root := Element_append (root s)
                       (Element (element_ids s) ''hook'' [(''type'', t), (''src'', src)] None []),
             element_ids := Suc (element_ids s)\<rparr>)
        \<and> children (root (snd (addHook t src s))) =
            children (root s) @
              [Element (element_ids s) ''hook'' [(''type'', t), (''src'', src)] None []]
        \<and> children (root (snd (addHook t src (snd (addHook t src s))))) =
            children (root s) @
              [Element (element_ids s) ''hook'' [(''type'', t), (''src'', src)] None [],
               Element (Suc (element_ids s)) ''hook'' [(''type'', t), (''src'', src)] None []])
   \<and> (t \<notin> set cordovaHookTypes \<longrightarrow>
        addHook t src s = (Inl (Error ''Please provide a valid hook target''), s))"
proof -
  have len: "length cordovaHookTypes = 34" by (simp add: cordovaHookTypes_def)
  have ok: "addHook t src s =
          (Inr (),
           s\<lparr>root := Element_append (root s)
                       (Element (element_ids s) ''hook'' [(''type'', t), (''src'', src)] None []),
             element_ids := Suc (element_ids s)\<rparr>)" if "t \<in> set cordovaHookTypes" for s
    using that by (simp add: addHook_def Array_indexOf_absent new_Element_def set_attrib_def)
  have bad: "addHook t src s = (Inl (Error ''Please provide a valid hook target''), s)"
    if "t \<notin> set cordovaHookTypes"
    using that by (simp add: addHook_def Array_indexOf_absent)
  have app: "children (Element_append r e) = children r @ [e]" for r e
    by (cases r) (simp add: Element_append_def)
  show ?thesis
  proof (cases "t \<in> set cordovaHookTypes")
    case True
    then show ?thesis
      using len cordovaHookTypes_distinct by (simp add: ok app)
  next
    case False
    then show ?thesis
      using len cordovaHookTypes_distinct by (simp add: bad)
  qed
qed

theorem addHook_spec_witness:
  "''before_build'' \<in> set cordovaHookTypes \<and> ''not_a_real_hook'' \<notin> set cordovaHookTypes
   \<and> children (root (snd (addHook ''before_build'' ''hooks/a.js''
                             (snd (addHook ''before_build'' ''hooks/a.js'' widget_doc))))) =
       [Element 1 ''hook'' [(''type'', ''before_build''), (''src'', ''hooks/a.js'')] None [],
        Element 2 ''hook'' [(''type'', ''before_build''), (''src'', ''hooks/a.js'')] None []]
   \<and> addHook ''not_a_real_hook'' ''x'' widget_doc =
       (Inl (Error ''Please provide a valid hook target''), widget_doc)"
proof -
  have a: "''before_build'' \<in> set cordovaHookTypes" by (simp add: cordovaHookTypes_def)
  have b: "''not_a_real_hook'' \<notin> set cordovaHookTypes" by (simp add: cordovaHookTypes_def)
  have c: "children (root (snd (addHook ''before_build'' ''hooks/a.js''
                             (snd (addHook ''before_build'' ''hooks/a.js'' widget_doc))))) =
       children (root widget_doc) @
       [Element (element_ids widget_doc) ''hook''
          [(''type'', ''before_build''), (''src'', ''hooks/a.js'')] None [],
        Element (Suc (element_ids widget_doc)) ''hook''
          [(''type'', ''before_build''), (''src'', ''hooks/a.js'')] None []]"
    using a addHook_spec [of "''before_build''" "''hooks/a.js''" widget_doc] by blast
  have d: "addHook ''not_a_real_hook'' ''x'' widget_doc =
       (Inl (Error ''Please provide a valid hook target''), widget_doc)"
    using b addHook_spec [of "''not_a_real_hook''" "''x''" widget_doc] by blast
  have e: "children (root widget_doc) = []" "element_ids widget_doc = 1"
    by (simp_all add: widget_doc_def)
  show ?thesis
    using a b c d by (simp add: e)
qed

subsection \<open>Absolute paths\<close>

text \<open>
  C8: \<open>fixAbsoluteXPath\<close> maps a path that begins with \<^verbatim>\<open>/\<close> and the root's tag to the
  path with this first occurrence of the prefix replaced by \<^verbatim>\<open>.\<close>, and returns every
  other path, the absent and the empty one included, as it is. It is a total function:
  it throws nothing.
\<close>

theorem fixAbsoluteXPath_spec:
  "fixAbsoluteXPath doc None = None
   \<and> fixAbsoluteXPath doc (Some []) = Some []
   \<and> fixAbsoluteXPath doc (Some ((''/'' @ tag doc) @ rest)) = Some (''.'' @ rest)
   \<and> replace ((''/'' @ tag doc) @ rest) (''/'' @ tag doc) ''.'' = ''.'' @ rest
   \<and> ((\<nexists>rest. p = (''/'' @ tag doc) @ rest) \<longrightarrow> fixAbsoluteXPath doc (Some p) = Some p)"
proof -
  have "replace ((''/'' @ tag doc) @ rest) (''/'' @ tag doc) ''.'' = ''.'' @ rest"
    by (rule replace_prefix)
  moreover have "startsWith ((''/'' @ tag doc) @ rest) (''/'' @ tag doc)"
    unfolding startsWith_append by blast
  moreover have "\<not> startsWith p (''/'' @ tag doc)" if "\<nexists>rest. p = (''/'' @ tag doc) @ rest"
    using that unfolding startsWith_append by blast
  ultimately show ?thesis
    by (simp add: fixAbsoluteXPath_def indexOf_zero del: replace.simps startsWith.simps)
qed

theorem fixAbsoluteXPath_spec_witness:
  "fixAbsoluteXPath (root widget_doc) (Some ''/widget/name'') = Some ''./name''
   \<and> (\<nexists>rest. ''./name'' = (''/'' @ tag (root widget_doc)) @ rest)
   \<and> fixAbsoluteXPath (root widget_doc) (Some ''./name'') = Some ''./name''"
proof -
  have a: "\<nexists>rest. ''./name'' = (''/'' @ tag (root widget_doc)) @ rest" by simp
  show ?thesis
    using a fixAbsoluteXPath_spec [of "root widget_doc" "''/name''" "''./name''"]
    by (simp add: widget_doc_def)
qed

subsection \<open>Access origins\<close>

lemma findall_children:
  "Element_findall r [Self, Child t] = filter (\<lambda>e. tag e = t) (children r)"
  by (simp add: Element_findall_def)

lemma findall_children_attr:
  "Element_findall r [Self, Child t, AttrEq k v] =
     filter (\<lambda>e. tag e = t \<and> Element_get e k = Some v) (children r)"
  by (simp add: Element_findall_def conj_commute)

lemma first_of_filter:
  "(case filter P xs of [] \<Rightarrow> None | x # _ \<Rightarrow> Some x) = List.find P xs"
  by (induction xs) auto

lemma find_access_origin:
  "Element_find r [Self, Child ''access'', AttrEq ''origin'' origin] =
     List.find (access_origin origin) (children r)"
proof -
  have "(\<lambda>e. tag e = ''access'' \<and> Element_get e ''origin'' = Some origin) = access_origin origin"
    by (auto simp: access_origin_def)
  then show ?thesis
    by (simp add: Element_find_def findall_children_attr first_of_filter)
qed

lemma children_remove:
  "children (Element_remove r a) = filter (\<lambda>e. uid e \<noteq> uid a) (children r)"
  by (cases r) (simp add: Element_remove_def)

lemma children_append: "children (Element_append r e) = children r @ [e]"
  by (cases r) (simp add: Element_append_def)

lemma Element_remove_eq:
  "Element_remove r a =
     Element (uid r) (tag r) (attrib r) (etext r) (filter (\<lambda>e. uid e \<noteq> uid a) (children r))"
  by (cases r) (simp add: Element_remove_def)

lemma fold_remove:
  "foldl (\<lambda>s' t. s'\<lparr>root := Element_remove (root s') t\<rparr>) s ts =
     s\<lparr>root := Element (uid (root s)) (tag (root s)) (attrib (root s)) (etext (root s))
                 (filter (\<lambda>e. uid e \<notin> uid ` set ts) (children (root s)))\<rparr>"
proof (induction ts arbitrary: s)
  case Nil
  show ?case by simp
next
  case (Cons t ts)
  let ?s1 = "s\<lparr>root := Element_remove (root s) t\<rparr>"
  have step: "foldl (\<lambda>s' t. s'\<lparr>root := Element_remove (root s') t\<rparr>) s (t # ts) =
        ?s1\<lparr>root := Element (uid (root ?s1)) (tag (root ?s1)) (attrib (root ?s1)) (etext (root ?s1))
                 (filter (\<lambda>e. uid e \<notin> uid ` set ts) (children (root ?s1)))\<rparr>"
    unfolding foldl.simps by (rule Cons.IH)
  have "filter (\<lambda>e. uid e \<notin> uid ` set ts) (filter (\<lambda>e. uid e \<noteq> uid t) (children (root s))) =
        filter (\<lambda>e. uid e \<notin> uid ` set (t # ts)) (children (root s))"
    by (auto intro: filter_cong)
  then show ?case
    unfolding step by (simp add: Element_remove_eq)
qed

lemma removeAccessOrigins_eq:
  "removeAccessOrigins s =
     s\<lparr>root := Element (uid (root s)) (tag (root s)) (attrib (root s)) (etext (root s))
                 (filter (\<lambda>e. uid e \<notin> uid ` {c \<in> set (children (root s)). tag c = ''access''})
                    (children (root s)))\<rparr>"
  by (simp add: removeAccessOrigins_def findall_children fold_remove)

lemma removeAccessOrigins_none_left:
  "filter (\<lambda>e. tag e = ''access'') (children (root (removeAccessOrigins s))) = []"
  by (auto simp: removeAccessOrigins_eq filter_empty_conv)

lemma removeAccessOrigins_distinct:
  assumes "distinct (map uid (children (root s)))"
  shows "removeAccessOrigins s =
     s\<lparr>root := Element (uid (root s)) (tag (root s)) (attrib (root s)) (etext (root s))
                 (filter (\<lambda>e. tag e \<noteq> ''access'') (children (root s)))\<rparr>"
proof -
  have inj: "inj_on uid (set (children (root s)))"
    using assms by (simp add: distinct_map)
  have "filter (\<lambda>e. uid e \<notin> uid ` {c \<in> set (children (root s)). tag c = ''access''})
          (children (root s)) =
        filter (\<lambda>e. tag e \<noteq> ''access'') (children (root s))"
  proof (rule filter_cong[OF refl])
    fix e assume e: "e \<in> set (children (root s))"
    show "(uid e \<notin> uid ` {c \<in> set (children (root s)). tag c = ''access''}) = (tag e \<noteq> ''access'')"
      using e inj by (auto dest: inj_onD)
  qed
  then show ?thesis by (simp add: removeAccessOrigins_eq)
qed

lemma removeAccessOrigin_children:
  "children (root (removeAccessOrigin origin s)) =
     (case List.find (access_origin origin) (children (root s)) of
        None \<Rightarrow> children (root s)
      | Some a \<Rightarrow> filter (\<lambda>e. uid e \<noteq> uid a) (children (root s)))"
  by (simp add: removeAccessOrigin_def find_access_origin children_remove split: option.splits)

lemma find_split:
  "List.find P xs = Some a \<Longrightarrow>
     xs = takeWhile (\<lambda>e. \<not> P e) xs @ a # tl (dropWhile (\<lambda>e. \<not> P e) xs) \<and> P a"
proof (induction xs)
  case Nil
  then show ?case by simp
next
  case (Cons x xs)
  then show ?case by (cases "P x") auto
qed

lemma filter_uid_distinct:
  assumes "distinct (map uid (pre @ a # post))"
  shows "filter (\<lambda>e. uid e \<noteq> uid a) (pre @ a # post) = pre @ post"
proof -
  have "\<forall>e \<in> set pre. uid e \<noteq> uid a" "\<forall>e \<in> set post. uid e \<noteq> uid a"
    using assms by (auto simp: image_iff)
  then show ?thesis by (simp add: filter_id_conv)
qed

lemma find_none_filter: "List.find P xs = None \<Longrightarrow> filter P xs = []"
  by (induction xs) (auto split: if_splits)

lemma setAccessOrigin_children:
  "children (root (setAccessOrigin origin options s)) =
     children (root (removeAccessOrigin origin s)) @
       [Element (element_ids s) ''access''
          (foldl (\<lambda>a (k, v). AList.update k v a) [(''origin'', origin)]
             (case options of None \<Rightarrow> [] | Some kvs \<Rightarrow> kvs)) None []]"
proof -
  have ids: "element_ids (removeAccessOrigin origin s) = element_ids s"
    by (simp add: removeAccessOrigin_def split: option.splits)
  have fold: "foldl (\<lambda>el (k, v). set_attrib k v el) (Element n t a x cs) kvs =
        Element n t (foldl (\<lambda>a (k, v). AList.update k v a) a kvs) x cs" for n t a x cs kvs
    by (induction kvs arbitrary: a) (auto simp: set_attrib_def)
  have one: "set_attrib ''origin'' origin (Element n ''access'' [] None []) =
        Element n ''access'' [(''origin'', origin)] None []" for n
    by (simp add: set_attrib_def)
  show ?thesis
    by (simp add: setAccessOrigin_def Let_def new_Element_def ids children_append one fold)
qed

lemma find_some_mem: "List.find P xs = Some a \<Longrightarrow> a \<in> set xs \<and> P a"
  by (induction xs) (auto split: if_splits)

lemma removeAccessOrigin_unique:
  assumes "length (filter (access_origin origin) (children (root s))) \<le> 1"
  shows "filter (access_origin origin) (children (root (removeAccessOrigin origin s))) = []"
proof (cases "List.find (access_origin origin) (children (root s))")
  case None
  then show ?thesis
    by (simp add: removeAccessOrigin_children find_none_filter)
next
  case (Some a)
  then have "a \<in> set (filter (access_origin origin) (children (root s)))"
    using find_some_mem [OF Some] by simp
  then have one: "filter (access_origin origin) (children (root s)) = [a]"
    using assms by (cases "filter (access_origin origin) (children (root s))") auto
  have "filter (access_origin origin) (filter (\<lambda>e. uid e \<noteq> uid a) (children (root s))) =
        filter (\<lambda>e. uid e \<noteq> uid a) (filter (access_origin origin) (children (root s)))"
    by (simp add: conj_commute)
  then show ?thesis
    using Some by (simp add: removeAccessOrigin_children one)
qed

lemma element_ids_setAccessOrigin:
  "element_ids (setAccessOrigin origin options s) = Suc (element_ids s)"
  by (simp add: setAccessOrigin_def Let_def new_Element_def removeAccessOrigin_def
        split: option.splits prod.splits)

lemma map_of_fold_update:
  "map_of (foldl (\<lambda>a (k, v). AList.update k v a) al kvs) = map_of al ++ map_of (rev kvs)"
proof (induction kvs arbitrary: al)
  case Nil
  show ?case by simp
next
  case (Cons kv kvs)
  obtain k v where kv: "kv = (k, v)" by (cases kv)
  have "map_of (foldl (\<lambda>a (k, v). AList.update k v a) al (kv # kvs)) =
        map_of (AList.update k v al) ++ map_of (rev kvs)"
    by (simp add: kv Cons.IH)
  also have "\<dots> = map_of al ++ map_of (rev (kv # kvs))"
    by (simp add: kv update_conv' map_add_def fun_eq_iff split: option.splits)
  finally show ?case .
qed

lemma map_of_rev_distinct:
  "distinct (map fst kvs) \<Longrightarrow> map_of (rev kvs) = map_of kvs"
proof (induction kvs)
  case Nil
  show ?case by simp
next
  case (Cons kv kvs)
  then have "fst kv \<notin> dom (map_of kvs)"
    by (simp add: dom_map_of_conv_image_fst)
  then have "map_of kvs (fst kv) = None"
    by (simp add: domIff)
  then show ?case
    using Cons by (cases kv) (auto simp: map_add_def fun_eq_iff split: option.splits)
qed

lemma attrs_of_options:
  assumes "distinct (map fst opts)"
  shows "map_of (foldl (\<lambda>a (k, v). AList.update k v a) [(''origin'', origin)] opts) =
           [''origin'' \<mapsto> origin] ++ map_of opts"
  using assms by (simp add: map_of_fold_update map_of_rev_distinct)

text \<open>
  The methods keep the ids of the root's children pairwise distinct and below the
  counter.
\<close>

lemma ids_ok_append:
  assumes "ids_ok s" and "uid e = element_ids s"
  shows "ids_ok (s\<lparr>root := Element_append (root s) e, element_ids := Suc (element_ids s)\<rparr>)"
proof -
  have "uid e \<notin> uid ` set (children (root s))"
    using assms by (auto simp: ids_ok_def list_all_iff)
  moreover have "list_all (\<lambda>c. uid c < Suc (element_ids s)) (children (root s))"
    using assms(1) by (auto simp: ids_ok_def list_all_iff)
  ultimately show ?thesis
    using assms by (simp add: ids_ok_def children_append)
qed

lemma ids_ok_remove:
  assumes "ids_ok s"
  shows "ids_ok (s\<lparr>root := Element_remove (root s) a\<rparr>)"
  using assms by (simp add: ids_ok_def children_remove distinct_map_filter list_all_iff)

lemma ids_ok_removeAccessOrigin: "ids_ok s \<Longrightarrow> ids_ok (removeAccessOrigin origin s)"
  by (simp add: removeAccessOrigin_def ids_ok_remove split: option.splits)

lemma ids_ok_removeAccessOrigins: "ids_ok s \<Longrightarrow> ids_ok (removeAccessOrigins s)"
  by (simp add: removeAccessOrigins_eq ids_ok_def distinct_map_filter list_all_iff)

lemma uid_fold_set_attrib:
  "uid (foldl (\<lambda>el (k, v). set_attrib k v el) e kvs) = uid e"
proof (induction kvs arbitrary: e)
  case Nil
  show ?case by simp
next
  case (Cons kv kvs)
  obtain k v where kv: "kv = (k, v)" by (cases kv)
  have "uid (set_attrib k v e) = uid e"
    by (cases e) (simp add: set_attrib_def)
  then show ?case by (simp add: kv Cons.IH)
qed

lemma uid_set_attrib: "uid (set_attrib k v e) = uid e"
  by (cases e) (simp add: set_attrib_def)

lemma ids_ok_setAccessOrigin:
  assumes "ids_ok s"
  shows "ids_ok (setAccessOrigin origin options s)"
proof -
  let ?s1 = "removeAccessOrigin origin s"
  have ids: "element_ids ?s1 = element_ids s"
    by (simp add: removeAccessOrigin_def split: option.splits)
  have ok1: "ids_ok ?s1"
    using assms by (rule ids_ok_removeAccessOrigin)
  let ?e = "foldl (\<lambda>el (k, v). set_attrib k v el)
              (set_attrib ''origin'' origin (Element (element_ids ?s1) ''access'' [] None []))
              (case options of None \<Rightarrow> [] | Some kvs \<Rightarrow> kvs)"
  have "uid ?e = element_ids ?s1"
    by (simp add: uid_fold_set_attrib uid_set_attrib)
  then have "ids_ok (?s1\<lparr>root := Element_append (root ?s1) ?e, element_ids := Suc (element_ids ?s1)\<rparr>)"
    by (rule ids_ok_append [OF ok1])
  then show ?thesis
    by (simp add: setAccessOrigin_def Let_def new_Element_def)
qed

lemma ids_ok_addHook:
  assumes "ids_ok s"
  shows "ids_ok (snd (addHook t src s))"
proof (cases "Array_indexOf cordovaHookTypes t = - 1")
  case True
  then show ?thesis using assms by (simp add: addHook_def)
next
  case False
  let ?e = "set_attrib ''src'' src (set_attrib ''type'' t (Element (element_ids s) ''hook'' [] None []))"
  have "uid ?e = element_ids s" by (simp add: uid_set_attrib)
  then have "ids_ok (s\<lparr>root := Element_append (root s) ?e, element_ids := Suc (element_ids s)\<rparr>)"
    by (rule ids_ok_append [OF assms])
  then show ?thesis
    using False by (simp add: addHook_def new_Element_def)
qed

lemma ids_ok_set_root_attrib:
  "ids_ok s \<Longrightarrow> ids_ok (s\<lparr>root := set_attrib k v (root s)\<rparr>)"
  by (cases "root s") (simp add: ids_ok_def set_attrib_def)

lemma ids_ok_setters:
  assumes "ids_ok s"
  shows "ids_ok (snd (setID v s))" and "ids_ok (snd (setVersion v s))"
    and "ids_ok (snd (setAndroidVersionCode v s))" and "ids_ok (snd (setIOSBundleVersion v s))"
  using assms
  by (simp_all add: setID_def setVersion_def setAndroidVersionCode_def setIOSBundleVersion_def
        ids_ok_set_root_attrib)

lemma ids_ok_counter: "ids_ok s \<Longrightarrow> element_ids s \<le> n \<Longrightarrow> ids_ok (s\<lparr>element_ids := n\<rparr>)"
  by (auto simp: ids_ok_def list_all_iff)

lemma ids_ok_setPreference:
  assumes "ids_ok s"
  shows "ids_ok (snd (setPreference name val platform s))"
proof -
  obtain pe s1 where ps: "platform_scope platform s = (pe, s1)"
    by (cases "platform_scope platform s")
  have ok1: "ids_ok s1"
  proof (cases "s1 = s")
    case True
    then show ?thesis using assms by simp
  next
    case False
    let ?e = "set_attrib ''name'' (the platform) (Element (element_ids s) ''platform'' [] None [])"
    have "s1 = s\<lparr>root := Element_append (root s) ?e, element_ids := Suc (element_ids s)\<rparr>"
      using ps False
      by (auto simp: platform_scope_def new_Element_def Let_def split: option.splits if_splits)
    moreover have "uid ?e = element_ids s" by (simp add: uid_set_attrib)
    ultimately show ?thesis
      using ids_ok_append [OF assms] by simp
  qed
  have "snd (setPreference name val platform s) = s1
        \<or> snd (setPreference name val platform s) = s1\<lparr>element_ids := Suc (element_ids s1)\<rparr>"
    using ps
    by (auto simp: setPreference_def on_this_platformElement_def this_platformElement_def
          new_Element_def split: option.splits)
  then show ?thesis
    using ok1 ids_ok_counter [OF ok1, of "Suc (element_ids s1)"] by auto
qed

text \<open>
  C6: after \<open>removeAccessOrigins\<close> no child of the root has the tag \<open>access\<close>, whatever
  the document was, so also after any number of origins were added. The ids of the
  root's children being pairwise distinct (they are the ids of distinct objects), the
  other children stay, in their order, and the root keeps its tag, attributes and text;
  the file name and the element counter are unchanged.
\<close>

theorem removeAccessOrigins_spec:
  "filter (\<lambda>e. tag e = ''access'') (children (root (removeAccessOrigins s))) = []
   \<and> filter (\<lambda>e. tag e = ''access'')
        (children (root (removeAccessOrigins
           (foldl (\<lambda>s' origin. setAccessOrigin origin None s') s origins)))) = []
   \<and> (distinct (map uid (children (root s))) \<longrightarrow>
        removeAccessOrigins s =
          s\<lparr>root := Element (uid (root s)) (tag (root s)) (attrib (root s)) (etext (root s))
                      (filter (\<lambda>e. tag e \<noteq> ''access'') (children (root s)))\<rparr>)"
  using removeAccessOrigins_none_left removeAccessOrigins_distinct by blast

theorem removeAccessOrigins_spec_witness:
  "distinct (map uid (children (root duplicate_doc)))
   \<and> removeAccessOrigins duplicate_doc =
       duplicate_doc\<lparr>root := Element 0 ''widget'' [(''id'', ''com.example.app'')] None
                               [Element 2 ''name'' [] (Some ''App'') []]\<rparr>
   \<and> filter (\<lambda>e. tag e = ''access'')
        (children (root (removeAccessOrigins
           (foldl (\<lambda>s' origin. setAccessOrigin origin None s') widget_doc
              [''https://a.com'', ''https://b.com'', ''https://c.com''])))) = []"
proof -
  have d: "distinct (map uid (children (root duplicate_doc)))"
    by (simp add: duplicate_doc_def)
  have "removeAccessOrigins duplicate_doc =
          duplicate_doc\<lparr>root := Element (uid (root duplicate_doc)) (tag (root duplicate_doc))
             (attrib (root duplicate_doc)) (etext (root duplicate_doc))
             (filter (\<lambda>e. tag e \<noteq> ''access'') (children (root duplicate_doc)))\<rparr>"
    using d removeAccessOrigins_spec [of duplicate_doc "[]"] by blast
  then show ?thesis
    using d removeAccessOrigins_spec [of widget_doc "[''https://a.com'', ''https://b.com'', ''https://c.com'']"]
    by (simp add: duplicate_doc_def)
qed

text \<open>
  C5 says that \<open>setAccessOrigin\<close> removes the access element of the origin, appends a new
  one with the origin and every key and value of the options, and that two calls with
  the same origin therefore leave exactly one access element of that origin. The options
  are written after the origin attribute, so a key \<open>origin\<close> among them replaces it: the
  second call below leaves no access element of the origin it was called with.
\<close>

theorem setAccessOrigin_options_override_origin:
  "filter (access_origin ''https://a.com'') (children (root widget_doc)) = []
   \<and> filter (access_origin ''https://a.com'')
       (children (root (setAccessOrigin ''https://a.com'' (Some [(''origin'', ''https://b.com'')])
                          (setAccessOrigin ''https://a.com'' None widget_doc)))) = []
   \<and> children (root (setAccessOrigin ''https://a.com'' (Some [(''origin'', ''https://b.com'')])
                          (setAccessOrigin ''https://a.com'' None widget_doc))) =
       [Element 2 ''access'' [(''origin'', ''https://b.com'')] None []]"
  by (simp add: setAccessOrigin_def removeAccessOrigin_def Element_find_def Element_findall_def
        Element_get_def Element_append_def Element_remove_def new_Element_def set_attrib_def
        widget_doc_def access_origin_def)

text \<open>
  C5, amended. \<open>removeAccessOrigin\<close> removes the first access element of the origin, if
  there is one; \<open>setAccessOrigin\<close> then appends a new access element whose attributes
  are the origin and the options, a key \<open>origin\<close> among the options replacing the origin
  (both on every document and for all options). For options whose keys do not redefine
  \<open>origin\<close> (or give it the same value), on a document with at most one access element
  of the origin, two calls with that origin, the second with the options, leave exactly
  one access element of the origin: the one of the second call, with its options.
\<close>

theorem setAccessOrigin_spec:
  "children (root (removeAccessOrigin origin s)) =
     (case List.find (access_origin origin) (children (root s)) of
        None \<Rightarrow> children (root s)
      | Some a \<Rightarrow> filter (\<lambda>e. uid e \<noteq> uid a) (children (root s)))
   \<and> children (root (setAccessOrigin origin (Some opts) s)) =
       children (root (removeAccessOrigin origin s)) @
         [Element (element_ids s) ''access''
            (foldl (\<lambda>a (k, v). AList.update k v a) [(''origin'', origin)] opts) None []]
   \<and> (distinct (map fst opts) \<longrightarrow>
        map_of (foldl (\<lambda>a (k, v). AList.update k v a) [(''origin'', origin)] opts) =
          [''origin'' \<mapsto> origin] ++ map_of opts)
   \<and> (length (filter (access_origin origin) (children (root s))) \<le> 1
        \<and> distinct (map fst opts)
        \<and> (map_of opts ''origin'' = None \<or> map_of opts ''origin'' = Some origin) \<longrightarrow>
        filter (access_origin origin)
          (children (root (setAccessOrigin origin (Some opts) (setAccessOrigin origin first s)))) =
          [Element (Suc (element_ids s)) ''access''
             (foldl (\<lambda>a (k, v). AList.update k v a) [(''origin'', origin)] opts) None []])"
proof -
  let ?P = "access_origin origin"
  let ?attrs = "foldl (\<lambda>a (k, v). AList.update k v a) [(''origin'', origin)] opts"
  let ?s1 = "setAccessOrigin origin first s"
  have two: "filter ?P (children (root (setAccessOrigin origin (Some opts) ?s1))) =
          [Element (Suc (element_ids s)) ''access'' ?attrs None []]"
    if one: "length (filter ?P (children (root s))) \<le> 1"
      and keys: "distinct (map fst opts)"
      and same: "map_of opts ''origin'' = None \<or> map_of opts ''origin'' = Some origin"
  proof -
    have attrs: "map_of ?attrs = [''origin'' \<mapsto> origin] ++ map_of opts"
      using keys by (rule attrs_of_options)
    have "map_of ?attrs ''origin'' = Some origin"
      using same by (auto simp: attrs map_add_def)
    then have new: "?P (Element n ''access'' ?attrs None [])" for n
      by (simp add: access_origin_def Element_get_def)
    have "filter ?P (children (root ?s1)) =
            filter ?P [Element (element_ids s) ''access''
               (foldl (\<lambda>a (k, v). AList.update k v a) [(''origin'', origin)]
                  (case first of None \<Rightarrow> [] | Some kvs \<Rightarrow> kvs)) None []]"
      using removeAccessOrigin_unique [OF one] by (simp add: setAccessOrigin_children)
    then have "length (filter ?P (children (root ?s1))) \<le> 1"
      by simp
    then have "filter ?P (children (root (removeAccessOrigin origin ?s1))) = []"
      by (rule removeAccessOrigin_unique)
    then show ?thesis
      using new by (simp add: setAccessOrigin_children element_ids_setAccessOrigin)
  qed
  have attrs: "map_of ?attrs = [''origin'' \<mapsto> origin] ++ map_of opts"
    if "distinct (map fst opts)"
    using that by (rule attrs_of_options)
  have rem: "children (root (removeAccessOrigin origin s)) =
     (case List.find ?P (children (root s)) of
        None \<Rightarrow> children (root s)
      | Some a \<Rightarrow> filter (\<lambda>e. uid e \<noteq> uid a) (children (root s)))"
    by (rule removeAccessOrigin_children)
  have app: "children (root (setAccessOrigin origin (Some opts) s)) =
       children (root (removeAccessOrigin origin s)) @ [Element (element_ids s) ''access'' ?attrs None []]"
    by (simp add: setAccessOrigin_children)
  show ?thesis
    using rem app attrs two by blast
qed

theorem setAccessOrigin_spec_witness:
  "length (filter (access_origin ''https://a.com'') (children (root widget_doc))) \<le> 1
   \<and> distinct (map fst [(''subdomains'', ''true'')])
   \<and> map_of [(''subdomains'', ''true'')] ''origin'' = None
   \<and> filter (access_origin ''https://a.com'')
       (children (root (setAccessOrigin ''https://a.com'' (Some [(''subdomains'', ''true'')])
                          (setAccessOrigin ''https://a.com'' None widget_doc)))) =
       [Element 2 ''access'' [(''origin'', ''https://a.com''), (''subdomains'', ''true'')] None []]
   \<and> children (root (setAccessOrigin ''https://a.com'' (Some [(''subdomains'', ''true'')])
                          (setAccessOrigin ''https://a.com'' None widget_doc))) =
       [Element 2 ''access'' [(''origin'', ''https://a.com''), (''subdomains'', ''true'')] None []]"
proof -
  have a: "length (filter (access_origin ''https://a.com'') (children (root widget_doc))) \<le> 1"
    by (simp add: widget_doc_def)
  have b: "distinct (map fst [(''subdomains'', ''true'')])" by simp
  have c: "map_of [(''subdomains'', ''true'')] ''origin'' = None
           \<or> map_of [(''subdomains'', ''true'')] ''origin'' = Some ''https://a.com''" by simp
  have d: "children (root (setAccessOrigin ''https://a.com'' (Some [(''subdomains'', ''true'')])
                          (setAccessOrigin ''https://a.com'' None widget_doc))) =
       [Element 2 ''access'' [(''origin'', ''https://a.com''), (''subdomains'', ''true'')] None []]"
    by (simp add: setAccessOrigin_def removeAccessOrigin_def Element_find_def Element_findall_def
          Element_get_def Element_append_def Element_remove_def new_Element_def set_attrib_def
          widget_doc_def)
  show ?thesis
    using a b c d
      setAccessOrigin_spec [of "''https://a.com''" widget_doc "[(''subdomains'', ''true'')]" None]
    by (simp add: widget_doc_def)
qed

text \<open>
  C10: on a document with two or more access elements of one origin among the root's
  children (whose ids are pairwise distinct), \<open>removeAccessOrigin\<close> removes the first of
  them only: the children before it and after it stay, one fewer element of the origin is
  left, and after \<open>setAccessOrigin\<close> with that origin there are still two or more.
\<close>

theorem removeAccessOrigin_leaves_duplicates:
  assumes "distinct (map uid (children (root s)))"
    and "2 \<le> length (filter (access_origin origin) (children (root s)))"
  shows "children (root (removeAccessOrigin origin s)) =
           takeWhile (\<lambda>e. \<not> access_origin origin e) (children (root s)) @
           tl (dropWhile (\<lambda>e. \<not> access_origin origin e) (children (root s)))
         \<and> Suc (length (filter (access_origin origin) (children (root (removeAccessOrigin origin s)))))
             = length (filter (access_origin origin) (children (root s)))
         \<and> 2 \<le> length (filter (access_origin origin)
                          (children (root (setAccessOrigin origin None s))))"
proof -
  let ?P = "access_origin origin"
  let ?cs = "children (root s)"
  let ?pre = "takeWhile (\<lambda>e. \<not> ?P e) ?cs"
  let ?post = "tl (dropWhile (\<lambda>e. \<not> ?P e) ?cs)"
  obtain a where a: "List.find ?P ?cs = Some a"
    using assms(2) find_none_filter [of ?P ?cs] by (cases "List.find ?P ?cs") auto
  have split: "?cs = ?pre @ a # ?post" and Pa: "?P a"
    using find_split [OF a] by simp_all
  have "distinct (map uid (?pre @ a # ?post))"
    using assms(1) split by simp
  then have "filter (\<lambda>e. uid e \<noteq> uid a) (?pre @ a # ?post) = ?pre @ ?post"
    by (rule filter_uid_distinct)
  then have rem: "children (root (removeAccessOrigin origin s)) = ?pre @ ?post"
    using a split by (simp add: removeAccessOrigin_children)
  have "filter ?P ?cs = filter ?P ?pre @ a # filter ?P ?post"
    using Pa by (subst split) simp
  then have cnt: "Suc (length (filter ?P (?pre @ ?post))) = length (filter ?P ?cs)"
    by simp
  have new: "?P (Element (element_ids s) ''access'' [(''origin'', origin)] None [])"
    by (simp add: access_origin_def Element_get_def)
  have "length (filter ?P (children (root (setAccessOrigin origin None s)))) =
          Suc (length (filter ?P (?pre @ ?post)))"
    using new by (simp add: setAccessOrigin_children rem)
  then show ?thesis
    using rem cnt assms(2) by simp
qed

theorem removeAccessOrigin_leaves_duplicates_witness:
  "distinct (map uid (children (root duplicate_doc)))
   \<and> 2 \<le> length (filter (access_origin ''https://a.com'') (children (root duplicate_doc)))
   \<and> children (root (removeAccessOrigin ''https://a.com'' duplicate_doc)) =
       [Element 2 ''name'' [] (Some ''App'') [],
        Element 3 ''access'' [(''origin'', ''https://a.com'')] None []]
   \<and> 2 \<le> length (filter (access_origin ''https://a.com'')
                    (children (root (setAccessOrigin ''https://a.com'' None duplicate_doc))))"
proof -
  have d: "distinct (map uid (children (root duplicate_doc)))"
    by (simp add: duplicate_doc_def)
  have c: "2 \<le> length (filter (access_origin ''https://a.com'') (children (root duplicate_doc)))"
    by (simp add: duplicate_doc_def access_origin_def Element_get_def)
  show ?thesis
    using d c removeAccessOrigin_leaves_duplicates [OF d c]
    by (simp add: duplicate_doc_def access_origin_def Element_get_def)
qed

subsection \<open>Loading\<close>

lemma indexOf_char:
  "indexOf s [c] = (if c \<in> set s then int (length (takeWhile (\<lambda>d. d \<noteq> c) s)) else - 1)"
proof (induction s)
  case Nil
  show ?case by simp
next
  case (Cons d s)
  then show ?case by (auto simp: Let_def)
qed

lemma skip_to_markup:
  "substring s (indexOf s ''<'') = (if CHR ''<'' \<in> set s then dropWhile (\<lambda>d. d \<noteq> CHR ''<'') s else s)"
  by (simp add: substring_def indexOf_char dropWhile_eq_drop)

text \<open>
  C7: when the file can be read and the parser returns a root element for its markup
  (the contents from the first \<^verbatim>\<open><\<close> on), \<open>parse\<close> and the constructor fail if the
  root's tag is not \<open>widget\<close>, with an error whose message holds the file name, the
  expected tag and the tag found, and no document is returned; if the tag is \<open>widget\<close>
  they return the parsed document.
\<close>

theorem parse_spec:
  assumes "readFileSync fname = Inr contents"
    and "XML (if contents \<noteq> [] then substring contents (indexOf contents ''<'') else contents) n
           = (Inr rt, n1)"
  shows \<open>(tag rt \<noteq> ''widget'' \<longrightarrow>
           parse readFileSync XML fname n =
             (Inl (Error (fname @ '' has incorrect root node name (expected "widget", was "''
                            @ tag rt @ ''")'')), n1)
           \<and> Config readFileSync XML fname n =
               Inl (Error (fname @ '' has incorrect root node name (expected "widget", was "''
                            @ tag rt @ ''")'')))
         \<and> (tag rt = ''widget'' \<longrightarrow>
           parse readFileSync XML fname n = (Inr rt, n1)
           \<and> Config readFileSync XML fname n =
               Inr \<lparr>cfg_file = fname, root = rt, element_ids = n1\<rparr>)\<close>
  using assms by (simp add: parse_def Config_def Let_def)

theorem parse_spec_witness:
  \<open>example_fs ''plugin.xml'' = Inr (CHR 0xEF # CHR 0xBB # CHR 0xBF # ''<plugin/>'')
   \<and> XML_empty_element ''<plugin/>'' 0 = (Inr (Element 0 ''plugin'' [] None []), 1)
   \<and> Config example_fs XML_empty_element ''plugin.xml'' 0 =
       Inl (Error ''plugin.xml has incorrect root node name (expected "widget", was "plugin")'')
   \<and> example_fs ''config.xml'' = Inr ''<widget/>''
   \<and> Config example_fs XML_empty_element ''config.xml'' 0 = Inr widget_doc\<close>
proof -
  have a: "example_fs ''plugin.xml'' = Inr (CHR 0xEF # CHR 0xBB # CHR 0xBF # ''<plugin/>'')"
    by (simp add: example_fs_def)
  have b: "XML_empty_element
             (if CHR 0xEF # CHR 0xBB # CHR 0xBF # ''<plugin/>'' \<noteq> []
              then substring (CHR 0xEF # CHR 0xBB # CHR 0xBF # ''<plugin/>'')
                     (indexOf (CHR 0xEF # CHR 0xBB # CHR 0xBF # ''<plugin/>'') ''<'')
              else CHR 0xEF # CHR 0xBB # CHR 0xBF # ''<plugin/>'') 0
           = (Inr (Element 0 ''plugin'' [] None []), 1)"
    by (simp add: XML_empty_element_def substring_def alnum_def)
  have c: "example_fs ''config.xml'' = Inr ''<widget/>''"
    by (simp add: example_fs_def)
  have d: "XML_empty_element
             (if ''<widget/>'' \<noteq> [] then substring ''<widget/>'' (indexOf ''<widget/>'' ''<'')
              else ''<widget/>'') 0
           = (Inr (Element 0 ''widget'' [] None []), 1)"
    by (simp add: XML_empty_element_def substring_def alnum_def)
  have e: "XML_empty_element ''<plugin/>'' 0 = (Inr (Element 0 ''plugin'' [] None []), 1)"
    by (simp add: XML_empty_element_def alnum_def)
  show ?thesis
    using a c e
      parse_spec [where readFileSync = example_fs and XML = XML_empty_element
        and fname = "''plugin.xml''" and n = 0, OF a b]
      parse_spec [where readFileSync = example_fs and XML = XML_empty_element
        and fname = "''config.xml''" and n = 0, OF c d]
    by (simp add: widget_doc_def)
qed

subsection \<open>Raw XML\<close>

lemma fixAbsoluteXPath_cases:
  "fixAbsoluteXPath doc path =
     (case path of None \<Rightarrow> None
      | Some p \<Rightarrow> Some (if startsWith p (''/'' @ tag doc) then ''.'' @ drop (Suc (length (tag doc))) p else p))"
proof (cases path)
  case None
  then show ?thesis by (simp add: fixAbsoluteXPath_def)
next
  case (Some p)
  show ?thesis
  proof (cases "startsWith p (''/'' @ tag doc)")
    case True
    then obtain r where r: "p = (''/'' @ tag doc) @ r"
      unfolding startsWith_append by blast
    have "replace p (''/'' @ tag doc) ''.'' = ''.'' @ r"
      unfolding r by (rule replace_prefix)
    moreover have "p \<noteq> []" using r by simp
    ultimately show ?thesis
      using True Some r by (simp add: fixAbsoluteXPath_def indexOf_zero del: replace.simps startsWith.simps)
  next
    case False
    then show ?thesis
      using Some by (simp add: fixAbsoluteXPath_def indexOf_zero del: replace.simps startsWith.simps)
  qed
qed

lemma fixAbsoluteXPath_nonempty:
  "fixAbsoluteXPath doc (Some p) = Some q \<Longrightarrow> (q = []) = (p = [])"
  by (auto simp: fixAbsoluteXPath_cases split: if_splits)

lemma modify_root: "modify_node (uid r) f r = f r"
  by (cases r) simp

lemma modify_node_absent: "i \<notin> set (uids e) \<Longrightarrow> modify_node i f e = e"
proof (induction e)
  case (Element j t a x cs)
  then have "map (modify_node i f) cs = cs"
    by (auto intro: map_idI)
  then show ?case using Element.prems by simp
qed

lemma uid_in_uids: "uid e \<in> set (uids e)"
  by (cases e) simp

lemma modify_node_child:
  assumes "distinct (uids r)" and "children r = pre @ c # post"
  shows "modify_node (uid c) f r =
           Element (uid r) (tag r) (attrib r) (etext r) (pre @ f c # post)"
proof (cases r)
  case (Element j t a x cs)
  have cs: "cs = pre @ c # post" using assms(2) Element by simp
  have d: "distinct (j # concat (map uids pre) @ uids c @ concat (map uids post))"
    using assms(1) Element cs by simp
  have "j \<noteq> uid c"
    using d uid_in_uids [of c] by auto
  moreover have "uid c \<notin> set (uids e)" if "e \<in> set pre" for e
    using d that uid_in_uids [of c] by auto
  then have "map (modify_node (uid c) f) pre = pre"
    by (auto intro: map_idI modify_node_absent)
  moreover have "uid c \<notin> set (uids e)" if "e \<in> set post" for e
    using d that uid_in_uids [of c] by auto
  then have "map (modify_node (uid c) f) post = post"
    by (auto intro: map_idI modify_node_absent)
  moreover have "modify_node (uid c) f c = f c"
    by (cases c) simp
  ultimately show ?thesis
    using Element cs by simp
qed

lemmas eval_defs =
  addRawXML_def addRawXML_parent_def addRawXML_alreadyExists_def fixAbsoluteXPath_def
  ElementTree_find_def Element_find_def Element_findall_def XML_empty_element_def
  Element_append_def alnum_def

text \<open>
  C9 says that \<open>addRawXML\<close> does nothing, and raises no error, whenever \<open>atXPath\<close> is given
  and matches no node. Both lookups are made before the condition is tested, and a path
  that the tree rejects makes its lookup throw: with \<open>atXPath\<close> matching no node and an
  absolute \<open>ifXPathDoesNotExist\<close> outside the root tag, the call throws.
\<close>

theorem addRawXML_lookup_error:
  "addRawXML_parent ElementTree_find (Some ''./missing/path'') widget_doc = Inr None
   \<and> addRawXML ElementTree_find XML_empty_element ''<foo/>'' (Some ''./missing/path'')
        (Some ''/plugin/x'') widget_doc = (Inl SyntaxError, widget_doc)"
  by (simp add: eval_defs widget_doc_def)

text \<open>
  C9, amended: when both lookups return, \<open>addRawXML\<close> leaves the state as it is and
  throws nothing if \<open>atXPath\<close> matched no node or \<open>ifXPathDoesNotExist\<close> matched one;
  otherwise, when the parser returns an element for \<open>raw\<close>, it appends that element to
  the children of the node that \<open>atXPath\<close> matched. An error of a lookup is thrown to the
  caller, the state unchanged. The parent is the root when \<open>atXPath\<close> is absent or empty,
  else the match of the path after \<open>fixAbsoluteXPath\<close>; likewise a path
  \<open>ifXPathDoesNotExist\<close> counts only when it is given and not empty. In a tree whose
  elements have pairwise distinct ids, appending to a matched child of the root changes
  that child only.
\<close>

theorem addRawXML_spec:
  "(addRawXML_parent lookup atXPath s = Inr None \<and>
      addRawXML_alreadyExists lookup ifXPathDoesNotExist s = Inr ex \<longrightarrow>
        addRawXML lookup XML raw atXPath ifXPathDoesNotExist s = (Inr (), s))
   \<and> (addRawXML_parent lookup atXPath s = Inr par \<and>
      addRawXML_alreadyExists lookup ifXPathDoesNotExist s = Inr True \<longrightarrow>
        addRawXML lookup XML raw atXPath ifXPathDoesNotExist s = (Inr (), s))
   \<and> (addRawXML_parent lookup atXPath s = Inr (Some p) \<and>
      addRawXML_alreadyExists lookup ifXPathDoesNotExist s = Inr False \<and>
      XML raw (element_ids s) = (Inr xml, n) \<longrightarrow>
        addRawXML lookup XML raw atXPath ifXPathDoesNotExist s =
          (Inr (), s\<lparr>root := modify_node (uid p) (\<lambda>e. Element_append e xml) (root s),
                     element_ids := n\<rparr>))
   \<and> (addRawXML_parent lookup atXPath s = Inl e \<longrightarrow>
        addRawXML lookup XML raw atXPath ifXPathDoesNotExist s = (Inl e, s))
   \<and> (addRawXML_parent lookup atXPath s = Inr par \<and>
      addRawXML_alreadyExists lookup ifXPathDoesNotExist s = Inl e \<longrightarrow>
        addRawXML lookup XML raw atXPath ifXPathDoesNotExist s = (Inl e, s))
   \<and> addRawXML_parent lookup None s = Inr (Some (root s))
   \<and> addRawXML_parent lookup (Some []) s = Inr (Some (root s))
   \<and> (path \<noteq> [] \<and> fixAbsoluteXPath (root s) (Some path) = Some fixed \<longrightarrow>
        addRawXML_parent lookup (Some path) s = lookup fixed (root s)
        \<and> addRawXML_alreadyExists lookup (Some path) s =
            (case lookup fixed (root s) of Inl e \<Rightarrow> Inl e | Inr found \<Rightarrow> Inr (found \<noteq> None)))
   \<and> addRawXML_alreadyExists lookup None s = Inr False
   \<and> addRawXML_alreadyExists lookup (Some []) s = Inr False
   \<and> modify_node (uid (root s)) (\<lambda>e. Element_append e xml) (root s) = Element_append (root s) xml
   \<and> (distinct (uids (root s)) \<and> children (root s) = pre @ c # post \<longrightarrow>
        modify_node (uid c) (\<lambda>e. Element_append e xml) (root s) =
          Element (uid (root s)) (tag (root s)) (attrib (root s)) (etext (root s))
            (pre @ Element_append c xml # post))"
proof -
  have ne: "fixed \<noteq> []" if "path \<noteq> []" "fixAbsoluteXPath (root s) (Some path) = Some fixed"
    using that fixAbsoluteXPath_nonempty by blast
  have empty: "fixAbsoluteXPath (root s) (Some []) = Some []"
    by (simp add: fixAbsoluteXPath_def)
  have child: "modify_node (uid c) (\<lambda>e. Element_append e xml) (root s) =
          Element (uid (root s)) (tag (root s)) (attrib (root s)) (etext (root s))
            (pre @ Element_append c xml # post)"
    if "distinct (uids (root s))" "children (root s) = pre @ c # post"
    using that by (rule modify_node_child)
  show ?thesis
    using ne child
    by (auto simp: addRawXML_def addRawXML_parent_def addRawXML_alreadyExists_def empty
        modify_root fixAbsoluteXPath_def[of _ None] split: option.splits)
qed

theorem addRawXML_spec_witness:
  "addRawXML_parent ElementTree_find (Some ''./missing/path'') widget_doc = Inr None
   \<and> addRawXML_alreadyExists ElementTree_find None widget_doc = Inr False
   \<and> addRawXML ElementTree_find XML_empty_element ''<foo/>'' (Some ''./missing/path'') None
         widget_doc = (Inr (), widget_doc)
   \<and> addRawXML_alreadyExists ElementTree_find (Some ''/widget/name'') duplicate_doc = Inr True
   \<and> addRawXML ElementTree_find XML_empty_element ''<foo/>'' None (Some ''/widget/name'')
         duplicate_doc = (Inr (), duplicate_doc)
   \<and> addRawXML_parent ElementTree_find (Some ''/widget/name'') duplicate_doc =
         Inr (Some (Element 2 ''name'' [] (Some ''App'') []))
   \<and> XML_empty_element ''<foo/>'' (element_ids duplicate_doc) = (Inr (Element 4 ''foo'' [] None []), 5)
   \<and> addRawXML ElementTree_find XML_empty_element ''<foo/>'' (Some ''/widget/name'') None
         duplicate_doc =
         (Inr (),
          duplicate_doc\<lparr>root := Element 0 ''widget'' [(''id'', ''com.example.app'')] None
               [Element 1 ''access'' [(''origin'', ''https://a.com'')] None [],
                Element 2 ''name'' [] (Some ''App'') [Element 4 ''foo'' [] None []],
                Element 3 ''access'' [(''origin'', ''https://a.com'')] None []],
             element_ids := 5\<rparr>)
   \<and> distinct (uids (root duplicate_doc))
   \<and> modify_node 2 (\<lambda>e. Element_append e (Element 4 ''foo'' [] None [])) (root duplicate_doc) =
         Element 0 ''widget'' [(''id'', ''com.example.app'')] None
           [Element 1 ''access'' [(''origin'', ''https://a.com'')] None [],
            Element 2 ''name'' [] (Some ''App'') [Element 4 ''foo'' [] None []],
            Element 3 ''access'' [(''origin'', ''https://a.com'')] None []]"
proof -
  have a: "addRawXML_parent ElementTree_find (Some ''./missing/path'') widget_doc = Inr None"
    by (simp add: eval_defs widget_doc_def)
  have b: "addRawXML_alreadyExists ElementTree_find None s = Inr False" for s
    by (simp add: eval_defs)
  have c: "addRawXML_alreadyExists ElementTree_find (Some ''/widget/name'') duplicate_doc = Inr True"
    by (simp add: eval_defs duplicate_doc_def)
  have d: "addRawXML_parent ElementTree_find None duplicate_doc = Inr (Some (root duplicate_doc))"
    by (simp add: eval_defs)
  have e: "addRawXML_parent ElementTree_find (Some ''/widget/name'') duplicate_doc =
         Inr (Some (Element 2 ''name'' [] (Some ''App'') []))"
    by (simp add: eval_defs duplicate_doc_def)
  have f: "XML_empty_element ''<foo/>'' (element_ids duplicate_doc) = (Inr (Element 4 ''foo'' [] None []), 5)"
    by (simp add: eval_defs duplicate_doc_def)
  have 1: "addRawXML ElementTree_find XML_empty_element ''<foo/>'' (Some ''./missing/path'') None
         widget_doc = (Inr (), widget_doc)"
    using a b addRawXML_spec [of ElementTree_find "Some ''./missing/path''" widget_doc None False
        XML_empty_element "''<foo/>''"]
    by blast
  have 2: "addRawXML ElementTree_find XML_empty_element ''<foo/>'' None (Some ''/widget/name'')
         duplicate_doc = (Inr (), duplicate_doc)"
    using c d addRawXML_spec [of ElementTree_find None duplicate_doc "Some ''/widget/name''" _
        XML_empty_element "''<foo/>''" "Some (root duplicate_doc)"]
    by blast
  have 3: "addRawXML ElementTree_find XML_empty_element ''<foo/>'' (Some ''/widget/name'') None
         duplicate_doc =
         (Inr (), duplicate_doc\<lparr>root := modify_node (uid (Element 2 ''name'' [] (Some ''App'') []))
              (\<lambda>e. Element_append e (Element 4 ''foo'' [] None [])) (root duplicate_doc),
             element_ids := 5\<rparr>)"
    using b e f addRawXML_spec [of ElementTree_find "Some ''/widget/name''" duplicate_doc None _
        XML_empty_element "''<foo/>''" _ "Element 2 ''name'' [] (Some ''App'') []"
        "Element 4 ''foo'' [] None []" 5]
    by blast
  have g: "distinct (uids (root duplicate_doc))"
    by (simp add: duplicate_doc_def)
  have h: "children (root duplicate_doc) =
             [Element 1 ''access'' [(''origin'', ''https://a.com'')] None []] @
             Element 2 ''name'' [] (Some ''App'') [] #
             [Element 3 ''access'' [(''origin'', ''https://a.com'')] None []]"
    by (simp add: duplicate_doc_def)
  have 4: "modify_node (uid (Element 2 ''name'' [] (Some ''App'') []))
             (\<lambda>e. Element_append e (Element 4 ''foo'' [] None [])) (root duplicate_doc) =
           Element (uid (root duplicate_doc)) (tag (root duplicate_doc))
             (attrib (root duplicate_doc)) (etext (root duplicate_doc))
             ([Element 1 ''access'' [(''origin'', ''https://a.com'')] None []] @
              Element_append (Element 2 ''name'' [] (Some ''App'') []) (Element 4 ''foo'' [] None []) #
              [Element 3 ''access'' [(''origin'', ''https://a.com'')] None []])"
    using g h
      addRawXML_spec [where s = duplicate_doc and xml = "Element 4 ''foo'' [] None []"
        and pre = "[Element 1 ''access'' [(''origin'', ''https://a.com'')] None []]"
        and c = "Element 2 ''name'' [] (Some ''App'') []"
        and post = "[Element 3 ''access'' [(''origin'', ''https://a.com'')] None []]"]
    by blast
  show ?thesis
    using a b c e f g 1 2 3 4 by (simp add: duplicate_doc_def Element_append_def)
qed

end
